theory Spec2Isabelle
  imports Complex_Main
begin

section \<open>JavaScript strings and values\<close>

text \<open>
  The bulk lead-import pipeline (\<^verbatim>\<open>processBulkLeadImport\<close> and its helpers) works on
  untyped JSON rows. A \<^typ>\<open>string\<close> stands for a JavaScript string all of whose UTF-16
  code units are below 256, one \<^typ>\<open>char\<close> per code unit; strings with larger code
  units are outside the model.
\<close>

definition isDigit :: "char \<Rightarrow> bool" where
  \<comment> \<open>the regular-expression class \<^verbatim>\<open>\d\<close>\<close>
  "isDigit c = (c \<in> set ''0123456789'')"

definition isSpace :: "char \<Rightarrow> bool" where
  \<comment> \<open>the class \<^verbatim>\<open>\s\<close>, also what \<^verbatim>\<open>trim()\<close> strips: TAB, LF, VT, FF, CR, space, NBSP\<close>
  "isSpace c = (c \<in> set [CHR 0x09, CHR 0x0A, CHR 0x0B, CHR 0x0C, CHR 0x0D, CHR 0x20, CHR 0xA0])"

definition trim :: "string \<Rightarrow> string" where
  "trim s = rev (dropWhile isSpace (rev (dropWhile isSpace s)))"

definition isUpper :: "char \<Rightarrow> bool" where
  \<comment> \<open>A-Z, and the Latin-1 capitals 0xC0-0xDE without the multiplication sign 0xD7\<close>
  "isUpper c = (let n = (of_char c :: nat) in
     (65 \<le> n \<and> n \<le> 90) \<or> (192 \<le> n \<and> n \<le> 222 \<and> n \<noteq> 215))"

fun toLowerChar :: "char \<Rightarrow> char" where
  \<comment> \<open>a capital and its small letter differ by 0x20, the sixth bit\<close>
  "toLowerChar (Char b0 b1 b2 b3 b4 b5 b6 b7) =
     (if isUpper (Char b0 b1 b2 b3 b4 b5 b6 b7) then Char b0 b1 b2 b3 b4 True b6 b7
      else Char b0 b1 b2 b3 b4 b5 b6 b7)"

definition toLowerCase :: "string \<Rightarrow> string" where
  "toLowerCase s = map toLowerChar s"

definition startsWith :: "string \<Rightarrow> string \<Rightarrow> bool" where
  "startsWith s k = (take (length k) s = k)"

fun includesStr :: "string \<Rightarrow> string \<Rightarrow> bool" where
  \<comment> \<open>\<^verbatim>\<open>s.includes(k)\<close>: k occurs in s as a substring\<close>
  "includesStr [] k = (k = [])"
| "includesStr (c # cs) k = (startsWith (c # cs) k \<or> includesStr cs k)"

definition digitChar :: "nat \<Rightarrow> char" where
  "digitChar d = ''0123456789'' ! d"

fun showNat :: "nat \<Rightarrow> string" where
  \<comment> \<open>\<^verbatim>\<open>n.toString()\<close> of a non-negative integer\<close>
  "showNat n = (if n < 10 then [digitChar n] else showNat (n div 10) @ [digitChar (n mod 10)])"

declare showNat.simps [simp del]

definition quoted :: "string \<Rightarrow> string" where
  \<comment> \<open>the text between two double-quote characters, as the log messages write it\<close>
  "quoted s = CHR 0x22 # s @ [CHR 0x22]"

definition arrow :: string where
  \<comment> \<open>U+2192 of two tally texts lies outside the 8-bit range; its UTF-8 bytes stand for it\<close>
  "arrow = [CHR 0xE2, CHR 0x86, CHR 0x92]"

text \<open>
  A field of a raw row is any JSON value. The code only ever tests a field for truthiness
  and calls \<^verbatim>\<open>.trim()\<close> on it, so three shapes are told apart: a falsy non-string
  (\<^verbatim>\<open>undefined\<close>, \<^verbatim>\<open>null\<close>, \<^verbatim>\<open>0\<close>, \<^verbatim>\<open>false\<close>), a string, and a truthy
  non-string (a number, \<^verbatim>\<open>true\<close>, an object, a function), kept with its \<^verbatim>\<open>String()\<close>
  rendering.
\<close>

datatype jsval = JAbsent | JStr string | JOther string

fun truthy :: "jsval \<Rightarrow> bool" where
  "truthy JAbsent = False"
| "truthy (JStr s) = (s \<noteq> [])"
| "truthy (JOther r) = True"

fun render :: "jsval \<Rightarrow> string" where
  \<comment> \<open>the text a template literal inserts for the value\<close>
  "render JAbsent = ''undefined''"
| "render (JStr s) = s"
| "render (JOther r) = r"

text \<open>
  A thrown value is any JavaScript value. \<open>ErrorObj name message\<close> is a thrown value that
  is not nullish: \<open>message\<close> is what its \<^verbatim>\<open>message\<close> property reads (empty when it has
  none). \<^verbatim>\<open>throw undefined\<close>, \<^verbatim>\<open>Promise.reject()\<close> and \<^verbatim>\<open>throw null\<close> are the
  other two.
\<close>

datatype thrown = ErrorObj string string | ThrownUndefined | ThrownNull

definition typeError :: "string \<Rightarrow> thrown" where
  "typeError m = ErrorObj ''TypeError'' m"

fun thrownToString :: "thrown \<Rightarrow> string" where
  \<comment> \<open>\<^verbatim>\<open>`${e}`\<close>\<close>
  "thrownToString (ErrorObj n m) = (if m = [] then n else if n = [] then m else n @ '': '' @ m)"
| "thrownToString ThrownUndefined = ''undefined''"
| "thrownToString ThrownNull = ''null''"

section \<open>Audit log and field-issue tally\<close>

datatype status = Imported | ImportedWithIssues | Failed

record raw_lead =
  r_uid :: jsval
  r_studentName :: jsval
  r_name :: jsval
  r_currentStage :: jsval
  r_leadCreatedDate :: jsval
  r_intake :: jsval
  r_country :: jsval
  r_mobileNumber :: jsval
  r_phone :: jsval
  r_email :: jsval
  r_source :: jsval
  r_passportStatus :: jsval
  r_remarks :: jsval
  r_counsellors :: jsval

text \<open>An element of the input array: an object, or \<^verbatim>\<open>null\<close> (a JSON array may hold it).\<close>

datatype raw_row = NullRow | Row raw_lead

definition emptyLead :: raw_lead where
  "emptyLead = \<lparr> r_uid = JAbsent, r_studentName = JAbsent, r_name = JAbsent,
     r_currentStage = JAbsent, r_leadCreatedDate = JAbsent, r_intake = JAbsent,
     r_country = JAbsent, r_mobileNumber = JAbsent, r_phone = JAbsent, r_email = JAbsent,
     r_source = JAbsent, r_passportStatus = JAbsent, r_remarks = JAbsent,
     r_counsellors = JAbsent \<rparr>"

text \<open>A date object: parsed from the given text, or \<^verbatim>\<open>new Date()\<close> at a clock reading.\<close>

datatype js_date = DateOf string | DateNow nat

record normalized_lead =
  n_uid :: string
  n_name :: string
  n_currentStage :: string
  n_leadCreatedDate :: js_date
  n_intake :: "string option"
  n_country :: jsval
  n_phone :: "string option"
  n_email :: "string option"
  n_source :: "string option"
  n_passportStatus :: "string option"
  n_remarks :: "string option"
  n_counsellors :: "string option"

record business_result =
  b_counselorId :: "nat option"
  b_currentStage :: string

text \<open>
  \<^verbatim>\<open>log.normalizedData\<close>: missing (the entries of a failed chunk), the empty object it
  starts as, or \<^verbatim>\<open>{ ...normalized, ...businessLogicResult }\<close>, where the second
  \<^verbatim>\<open>currentStage\<close> overwrites the first.
\<close>

datatype norm_data = NoData | EmptyData | Data normalized_lead "nat option" string

record validation_log =
  rowNumber :: rat
  status :: status
  fixesApplied :: "string list"
  warnings :: "string list"
  errors :: "string list"
  originalData :: raw_row
  normalizedData :: norm_data

definition pushFix :: "string \<Rightarrow> validation_log \<Rightarrow> validation_log" where
  "pushFix m vlog = vlog\<lparr>fixesApplied := fixesApplied vlog @ [m]\<rparr>"

definition pushWarning :: "string \<Rightarrow> validation_log \<Rightarrow> validation_log" where
  "pushWarning m vlog = vlog\<lparr>warnings := warnings vlog @ [m]\<rparr>"

definition pushError :: "string \<Rightarrow> validation_log \<Rightarrow> validation_log" where
  "pushError m vlog = vlog\<lparr>errors := errors vlog @ [m]\<rparr>"

record field_issue =
  count :: nat
  samples :: "string list"

text \<open>The tally object, as the list of its entries in insertion order.\<close>

type_synonym field_issues = "(string \<times> field_issue) list"

fun setEntry :: "string \<Rightarrow> field_issue \<Rightarrow> field_issues \<Rightarrow> field_issues" where
  "setEntry k v [] = [(k, v)]"
| "setEntry k v ((k', v') # rest) =
     (if k = k' then (k, v) # rest else (k', v') # setEntry k v rest)"

definition addFieldIssue :: "field_issues \<Rightarrow> string \<Rightarrow> string \<Rightarrow> field_issues" where
  "addFieldIssue fieldIssues fieldName issue =
     (let e = (case map_of fieldIssues fieldName of
                 None \<Rightarrow> \<lparr>count = 0, samples = []\<rparr> | Some e \<Rightarrow> e);
          e1 = e\<lparr>count := count e + 1\<rparr>;
          e2 = (if length (samples e1) < 5 then e1\<lparr>samples := samples e1 @ [issue]\<rparr> else e1)
      in setEntry fieldName e2 fieldIssues)"

section \<open>Field normalizers\<close>

definition seasonMap :: "(string \<times> string) list" where
  "seasonMap =
     [(''fall'', ''Fall''), (''autumn'', ''Fall''), (''sep'', ''Fall''), (''september'', ''Fall''),
      (''spring'', ''Spring''), (''jan'', ''Spring''), (''january'', ''Spring''),
      (''summer'', ''Summer''), (''may'', ''Summer''), (''jun'', ''Summer''),
      (''winter'', ''Winter''), (''dec'', ''Winter''), (''december'', ''Winter'')]"

fun yearMatch :: "string \<Rightarrow> string option" where
  \<comment> \<open>\<^verbatim>\<open>s.match(/\d{4}/)\<close>: the leftmost four digits in a row\<close>
  "yearMatch [] = None"
| "yearMatch (c # cs) =
     (if 4 \<le> length (c # cs) \<and> list_all isDigit (take 4 (c # cs)) then Some (take 4 (c # cs))
      else yearMatch cs)"

definition findSeason :: "string \<Rightarrow> string" where
  \<comment> \<open>the loop over \<^verbatim>\<open>Object.entries(seasonMap)\<close>: the first key that occurs wins\<close>
  "findSeason normalized =
     (case find (\<lambda>(key, value). includesStr normalized key) seasonMap of
        Some (key, value) \<Rightarrow> value
      | None \<Rightarrow> [])"

definition normalizeIntake ::
  "nat \<Rightarrow> string \<Rightarrow> validation_log \<Rightarrow> field_issues \<Rightarrow> string \<times> validation_log \<times> field_issues" where
  \<comment> \<open>the first argument is \<^verbatim>\<open>new Date().getFullYear()\<close>\<close>
  "normalizeIntake fullYear intake vlog fieldIssues =
     (let original = intake;
          normalized = toLowerCase intake;
          (year, log1) = (case yearMatch normalized of
             Some y \<Rightarrow> (y, vlog)
           | None \<Rightarrow> (let y = showNat (fullYear + 1)
                      in (y, pushFix (''Added missing year '' @ y @ '' to intake'') vlog)));
          found = findSeason normalized;
          (season, log2) = (if found = [] then (''Fall'', pushFix ''Added default season Fall to intake'' log1)
                            else (found, log1));
          result = year @ ''-'' @ season
      in if result \<noteq> original
         then (result,
               pushFix (''Normalized intake from '' @ quoted original @ '' to '' @ quoted result) log2,
               addFieldIssue fieldIssues ''intake''
                 (''Normalized: '' @ original @ '' '' @ arrow @ '' '' @ result))
         else (result, log2, fieldIssues))"

definition countryMap :: "(string \<times> string) list" where
  "countryMap =
     [(''united states'', ''US''), (''usa'', ''US''), (''america'', ''US''),
      (''united states of america'', ''US''),
      (''united kingdom'', ''GB''), (''uk'', ''GB''), (''england'', ''GB''), (''britain'', ''GB''),
      (''germany'', ''DE''), (''deutschland'', ''DE''),
      (''france'', ''FR''), (''francia'', ''FR''),
      (''india'', ''IN''), (''bharat'', ''IN''),
      (''china'', ''CN''), (''prc'', ''CN''),
      (''canada'', ''CA''),
      (''australia'', ''AU''), (''aus'', ''AU''),
      (''japan'', ''JP''), (''nippon'', ''JP''),
      (''south korea'', ''KR''), (''korea'', ''KR''),
      (''brazil'', ''BR''), (''brasil'', ''BR''),
      (''mexico'', ''MX''), (''m'' @ [CHR 0xE9] @ ''xico'', ''MX''),
      (''russia'', ''RU''), (''russian federation'', ''RU'')]"

definition nativeFunction :: "string \<Rightarrow> string" where
  "nativeFunction f = ''function '' @ f @ ''() { [native code] }''"

definition objectPrototype :: "(string \<times> string) list" where
  \<comment> \<open>the properties every object literal inherits, each with the text \<^verbatim>\<open>String()\<close> gives\<close>
  "objectPrototype =
     [(''constructor'', nativeFunction ''Object''),
      (''__defineGetter__'', nativeFunction ''__defineGetter__''),
      (''__defineSetter__'', nativeFunction ''__defineSetter__''),
      (''hasOwnProperty'', nativeFunction ''hasOwnProperty''),
      (''__lookupGetter__'', nativeFunction ''__lookupGetter__''),
      (''__lookupSetter__'', nativeFunction ''__lookupSetter__''),
      (''isPrototypeOf'', nativeFunction ''isPrototypeOf''),
      (''propertyIsEnumerable'', nativeFunction ''propertyIsEnumerable''),
      (''toString'', nativeFunction ''toString''),
      (''valueOf'', nativeFunction ''valueOf''),
      (''__proto__'', ''[object Object]''),
      (''toLocaleString'', nativeFunction ''toLocaleString'')]"

definition countryMapGet :: "string \<Rightarrow> jsval" where
  \<comment> \<open>\<^verbatim>\<open>countryMap[key]\<close>: \<^verbatim>\<open>countryMap\<close> is an object literal, so a key that is not its
      own property is looked up on \<^verbatim>\<open>Object.prototype\<close>\<close>
  "countryMapGet key =
     (case map_of countryMap key of
        Some code \<Rightarrow> JStr code
      | None \<Rightarrow> (case map_of objectPrototype key of
                   Some r \<Rightarrow> JOther r
                 | None \<Rightarrow> JAbsent))"

definition normalizeCountry ::
  "string \<Rightarrow> validation_log \<Rightarrow> field_issues \<Rightarrow> jsval \<times> validation_log \<times> field_issues" where
  "normalizeCountry country vlog fieldIssues =
     (let original = country;
          normalized = trim (toLowerCase country);
          mapped = countryMapGet normalized
      in if truthy mapped
         then (if mapped \<noteq> JStr original
               then (mapped,
                     pushFix (''Normalized country from '' @ quoted original @ '' to ''
                                @ quoted (render mapped)) vlog,
                     addFieldIssue fieldIssues ''country''
                       (''Normalized: '' @ original @ '' '' @ arrow @ '' '' @ render mapped))
               else (mapped, vlog, fieldIssues))
         else (JStr original,
               pushWarning (''Country '' @ quoted original @ '' could not be normalized to ISO code'') vlog,
               addFieldIssue fieldIssues ''country'' (''Unknown country: '' @ original)))"

definition normalizePhone ::
  "string \<Rightarrow> validation_log \<Rightarrow> field_issues \<Rightarrow> string \<times> validation_log \<times> field_issues" where
  "normalizePhone phone vlog fieldIssues =
     (let original = phone;
          normalized = filter (\<lambda>c. isDigit c \<or> c = CHR ''+'') phone;
          digitCount = length (filter isDigit normalized);
          (log1, fi1) = (if digitCount < 10
             then (pushWarning (''Phone number '' @ quoted original @ '' appears to be too short'') vlog,
                   addFieldIssue fieldIssues ''phone'' (''Too short: '' @ original))
             else (vlog, fieldIssues));
          log2 = (if normalized \<noteq> original
             then pushFix (''Cleaned phone number from '' @ quoted original @ '' to '' @ quoted normalized) log1
             else log1)
      in (normalized, log2, fi1))"

definition emailPart :: "string \<Rightarrow> bool" where
  \<comment> \<open>\<^verbatim>\<open>[^\s@]+\<close> matching the whole of the text\<close>
  "emailPart s = (s \<noteq> [] \<and> list_all (\<lambda>c. \<not> isSpace c \<and> c \<noteq> CHR ''@'') s)"

definition emailRegexTest :: "string \<Rightarrow> bool" where
  \<comment> \<open>\<^verbatim>\<open>/^[^\s@]+@[^\s@]+\.[^\s@]+$/.test(s)\<close>: some split at an at-sign and a later dot\<close>
  "emailRegexTest s =
     list_ex (\<lambda>i. s ! i = CHR ''@'' \<and> emailPart (take i s) \<and>
        list_ex (\<lambda>j. s ! j = CHR ''.'' \<and> emailPart (take (j - Suc i) (drop (Suc i) s))
                       \<and> emailPart (drop (Suc j) s))
          [Suc i ..< length s])
       [0 ..< length s]"

definition normalizeEmail ::
  "string \<Rightarrow> validation_log \<Rightarrow> field_issues \<Rightarrow> string option \<times> validation_log \<times> field_issues" where
  "normalizeEmail email vlog fieldIssues =
     (let original = email;
          normalized = trim (toLowerCase email)
      in if \<not> emailRegexTest normalized
         then (None,
               pushWarning (''Email '' @ quoted original @ '' appears to be invalid format'') vlog,
               addFieldIssue fieldIssues ''email'' (''Invalid format: '' @ original))
         else (Some normalized,
               if normalized \<noteq> original
               then pushFix (''Normalized email from '' @ quoted original @ '' to '' @ quoted normalized) vlog
               else vlog,
               fieldIssues))"

section \<open>Record validator\<close>

text \<open>
  What the run reads from outside: the clock (\<^verbatim>\<open>Date.now()\<close> and
  \<^verbatim>\<open>new Date().getFullYear()\<close>, as read while the row of the given number is
  normalized) and the engine's date parser (\<open>dateValid v\<close>: \<^verbatim>\<open>new Date(v)\<close> has a time
  that is not \<^verbatim>\<open>NaN\<close>).
\<close>

record env =
  nowMs :: "rat \<Rightarrow> nat"
  fullYear :: "rat \<Rightarrow> nat"
  dateValid :: "jsval \<Rightarrow> bool"

type_synonym 'a norm_step =
  "validation_log \<times> field_issues \<Rightarrow> (thrown + 'a) \<times> validation_log \<times> field_issues"

definition returnE :: "'a \<Rightarrow> 'a norm_step" where
  "returnE x = (\<lambda>(vlog, fi). (Inr x, vlog, fi))"

definition bindE :: "'a norm_step \<Rightarrow> ('a \<Rightarrow> 'b norm_step) \<Rightarrow> 'b norm_step" where
  \<comment> \<open>one statement after another; an exception ends the sequence and keeps what the
      log and the tally hold by then\<close>
  "bindE m f = (\<lambda>s. case m s of (Inl e, vlog, fi) \<Rightarrow> (Inl e, vlog, fi) | (Inr a, vlog, fi) \<Rightarrow> f a (vlog, fi))"

definition squoted :: "string \<Rightarrow> string" where
  "squoted s = CHR 0x27 # s @ [CHR 0x27]"

fun nonBlank :: "string \<Rightarrow> jsval \<Rightarrow> thrown + string option" where
  \<comment> \<open>\<^verbatim>\<open>rawLead.f && rawLead.f.trim()\<close>, with the trimmed text when it is truthy; a truthy
      value that is no string has no \<^verbatim>\<open>trim\<close>\<close>
  "nonBlank f JAbsent = Inr None"
| "nonBlank f (JStr s) = Inr (if s \<noteq> [] \<and> trim s \<noteq> [] then Some (trim s) else None)"
| "nonBlank f (JOther r) = Inl (typeError (''rawLead.'' @ f @ ''.trim is not a function''))"

definition guardE :: "string \<Rightarrow> jsval \<Rightarrow> (string option) norm_step" where
  "guardE f v = (\<lambda>(vlog, fi). (nonBlank f v, vlog, fi))"

definition genUid :: "nat \<Rightarrow> string" where
  \<comment> \<open>\<^verbatim>\<open>`UID-${timestamp.toString().slice(-6).padStart(6, '0')}`\<close>\<close>
  "genUid timestamp =
     (let t = showNat timestamp; last6 = drop (length t - 6) t
      in ''UID-'' @ replicate (6 - length last6) CHR ''0'' @ last6)"

definition uidStep :: "env \<Rightarrow> raw_lead \<Rightarrow> string norm_step" where
  "uidStep e rawLead =
     bindE (guardE ''uid'' (r_uid rawLead)) (\<lambda>u. case u of
       Some t \<Rightarrow> returnE t
     | None \<Rightarrow> (\<lambda>(vlog, fi).
         (Inr (genUid (nowMs e (rowNumber vlog))),
          pushFix ''Generated missing UID'' vlog,
          addFieldIssue fi ''uid'' ''Missing UID - generated automatically'')))"

definition nameStep :: "raw_lead \<Rightarrow> string norm_step" where
  "nameStep rawLead =
     bindE (guardE ''studentName'' (r_studentName rawLead)) (\<lambda>a. case a of
       Some t \<Rightarrow> returnE t
     | None \<Rightarrow> bindE (guardE ''name'' (r_name rawLead)) (\<lambda>b. case b of
         Some t \<Rightarrow> returnE t
       | None \<Rightarrow> (\<lambda>(vlog, fi).
           (Inr ''Unknown Student'',
            pushFix ''Set default name for missing student name''
              (pushError ''Missing required student name'' vlog),
            fi))))"

definition stageStep :: "raw_lead \<Rightarrow> string norm_step" where
  "stageStep rawLead =
     bindE (guardE ''currentStage'' (r_currentStage rawLead)) (\<lambda>a. case a of
       Some t \<Rightarrow> returnE t
     | None \<Rightarrow> (\<lambda>(vlog, fi).
         (Inr ''Yet to Assign'',
          pushFix ''Set default stage for missing current stage''
            (pushError ''Missing required current stage'' vlog),
          fi)))"

fun replaceFirst :: "(string \<Rightarrow> (string \<times> string) option) \<Rightarrow> string \<Rightarrow> string" where
  \<comment> \<open>\<^verbatim>\<open>s.replace(regex, template)\<close> for a regex without the g flag: the matcher says
      whether the pattern matches at the head, with the replacement and the rest\<close>
  "replaceFirst m [] = []"
| "replaceFirst m (c # cs) =
     (case m (c # cs) of Some (r, rest) \<Rightarrow> r @ rest | None \<Rightarrow> c # replaceFirst m cs)"

definition matchDMY :: "char \<Rightarrow> string \<Rightarrow> (string \<times> string) option" where
  \<comment> \<open>\<^verbatim>\<open>(\d{2})/(\d{2})/(\d{4})\<close> to \<^verbatim>\<open>$3-$2-$1\<close>, for the separator given\<close>
  "matchDMY sep s =
     (if 10 \<le> length s \<and> list_all isDigit (take 2 s) \<and> s ! 2 = sep
         \<and> list_all isDigit (take 2 (drop 3 s)) \<and> s ! 5 = sep
         \<and> list_all isDigit (take 4 (drop 6 s))
      then Some (take 4 (drop 6 s) @ ''-'' @ take 2 (drop 3 s) @ ''-'' @ take 2 s, drop 10 s)
      else None)"

definition matchYMD :: "string \<Rightarrow> (string \<times> string) option" where
  \<comment> \<open>\<^verbatim>\<open>(\d{4})(\d{2})(\d{2})\<close> to \<^verbatim>\<open>$1-$2-$3\<close>\<close>
  "matchYMD s =
     (if 8 \<le> length s \<and> list_all isDigit (take 8 s)
      then Some (take 4 s @ ''-'' @ take 2 (drop 4 s) @ ''-'' @ take 2 (drop 6 s), drop 8 s)
      else None)"

definition commonFormats :: "string \<Rightarrow> string list" where
  "commonFormats s =
     [replaceFirst (matchDMY CHR ''/'') s, replaceFirst (matchDMY CHR ''-'') s,
      replaceFirst matchYMD s]"

definition parseLeadDate :: "env \<Rightarrow> jsval \<Rightarrow> js_date option" where
  \<comment> \<open>the \<^verbatim>\<open>try\<close> block of the date handling; \<open>None\<close> when it throws (the text is
      unparseable, or the value is no string and has no \<^verbatim>\<open>replace\<close>)\<close>
  "parseLeadDate e d =
     (if dateValid e d then Some (DateOf (render d))
      else case d of
        JStr s \<Rightarrow> (case find (\<lambda>format. dateValid e (JStr format)) (commonFormats s) of
                     Some format \<Rightarrow> Some (DateOf format)
                   | None \<Rightarrow> None)
      | _ \<Rightarrow> None)"

definition dateStep :: "env \<Rightarrow> raw_lead \<Rightarrow> js_date norm_step" where
  "dateStep e rawLead = (\<lambda>(vlog, fi).
     (let d = r_leadCreatedDate rawLead; now = DateNow (nowMs e (rowNumber vlog))
      in if truthy d
         then (case parseLeadDate e d of
                 Some parsed \<Rightarrow> (Inr parsed, vlog, fi)
               | None \<Rightarrow>
                   (Inr now,
                    pushWarning (''Original date '' @ quoted (render d) @ '' could not be parsed'')
                      (pushFix ''Invalid date format - defaulted to current date'' vlog),
                    addFieldIssue fi ''leadCreatedDate'' (''Invalid format: '' @ render d)))
         else (Inr now, pushFix ''Missing date - defaulted to current date'' vlog, fi)))"

definition intakeStep :: "env \<Rightarrow> raw_lead \<Rightarrow> (string option) norm_step" where
  "intakeStep e rawLead =
     bindE (guardE ''intake'' (r_intake rawLead)) (\<lambda>a. case a of
       Some t \<Rightarrow> (\<lambda>(vlog, fi).
         (case normalizeIntake (fullYear e (rowNumber vlog)) t vlog fi of
            (result, log1, fi1) \<Rightarrow> (Inr (Some result), log1, fi1)))
     | None \<Rightarrow> (\<lambda>(vlog, fi). (Inr None, pushWarning ''Missing intake information'' vlog, fi)))"

definition countryStep :: "raw_lead \<Rightarrow> jsval norm_step" where
  "countryStep rawLead =
     bindE (guardE ''country'' (r_country rawLead)) (\<lambda>a. case a of
       Some t \<Rightarrow> (\<lambda>(vlog, fi). (case normalizeCountry t vlog fi of
                    (result, log1, fi1) \<Rightarrow> (Inr result, log1, fi1)))
     | None \<Rightarrow> (\<lambda>(vlog, fi). (Inr JAbsent, pushWarning ''Missing country information'' vlog, fi)))"

definition phoneStep :: "raw_lead \<Rightarrow> (string option) norm_step" where
  "phoneStep rawLead =
     bindE (guardE ''mobileNumber'' (r_mobileNumber rawLead)) (\<lambda>a. case a of
       Some t \<Rightarrow> (\<lambda>(vlog, fi). (case normalizePhone t vlog fi of
                    (result, log1, fi1) \<Rightarrow> (Inr (Some result), log1, fi1)))
     | None \<Rightarrow> bindE (guardE ''phone'' (r_phone rawLead)) (\<lambda>b. case b of
         Some t \<Rightarrow> (\<lambda>(vlog, fi). (case normalizePhone t vlog fi of
                      (result, log1, fi1) \<Rightarrow> (Inr (Some result), log1, fi1)))
       | None \<Rightarrow> (\<lambda>(vlog, fi). (Inr None, pushWarning ''Missing phone number'' vlog, fi))))"

definition emailStep :: "raw_lead \<Rightarrow> (string option) norm_step" where
  "emailStep rawLead =
     bindE (guardE ''email'' (r_email rawLead)) (\<lambda>a. case a of
       Some t \<Rightarrow> (\<lambda>(vlog, fi). (case normalizeEmail t vlog fi of
                    (result, log1, fi1) \<Rightarrow> (Inr result, log1, fi1)))
     | None \<Rightarrow> returnE None)"

definition normalizeAndValidateLead ::
  "env \<Rightarrow> raw_row \<Rightarrow> validation_log \<Rightarrow> field_issues
     \<Rightarrow> (thrown + normalized_lead) \<times> validation_log \<times> field_issues" where
  "normalizeAndValidateLead e rawRow vlog fieldIssues =
     (case rawRow of
        NullRow \<Rightarrow>
          (Inl (typeError (''Cannot read properties of null (reading '' @ squoted ''uid'' @ '')'')),
           vlog, fieldIssues)
      | Row rawLead \<Rightarrow>
         bindE (uidStep e rawLead) (\<lambda>uid.
         bindE (nameStep rawLead) (\<lambda>name.
         bindE (stageStep rawLead) (\<lambda>currentStage.
         bindE (dateStep e rawLead) (\<lambda>leadCreatedDate.
         bindE (intakeStep e rawLead) (\<lambda>intake.
         bindE (countryStep rawLead) (\<lambda>country.
         bindE (phoneStep rawLead) (\<lambda>phone.
         bindE (emailStep rawLead) (\<lambda>email.
         bindE (guardE ''source'' (r_source rawLead)) (\<lambda>source.
         bindE (guardE ''passportStatus'' (r_passportStatus rawLead)) (\<lambda>passportStatus.
         bindE (guardE ''remarks'' (r_remarks rawLead)) (\<lambda>remarks.
         bindE (guardE ''counsellors'' (r_counsellors rawLead)) (\<lambda>counsellors.
         returnE \<lparr> n_uid = uid, n_name = name, n_currentStage = currentStage,
                   n_leadCreatedDate = leadCreatedDate, n_intake = intake,
                   n_country = country, n_phone = phone, n_email = email,
                   n_source = source, n_passportStatus = passportStatus,
                   n_remarks = remarks, n_counsellors = counsellors \<rparr>))))))))))))
           (vlog, fieldIssues))"

section \<open>Business rules\<close>

record user =
  user_id :: nat
  user_name :: string
  user_role :: string

definition truthyId :: "nat option \<Rightarrow> bool" where
  \<comment> \<open>truthiness of \<^verbatim>\<open>number | null\<close>: neither \<^verbatim>\<open>null\<close> nor 0\<close>
  "truthyId i = (case i of None \<Rightarrow> False | Some n \<Rightarrow> n \<noteq> 0)"

definition determineOptimalStage :: "nat option \<Rightarrow> string option \<Rightarrow> string" where
  "determineOptimalStage counselorId requestedStage =
     (case requestedStage of
        Some r \<Rightarrow>
          if r \<noteq> [] \<and> trim r \<noteq> [] then trim r
          else if \<not> truthyId counselorId then ''Yet to Contact''
          else ''Yet to Contact''
      | None \<Rightarrow>
          if \<not> truthyId counselorId then ''Yet to Contact''
          else ''Yet to Contact'')"

definition applyBusinessLogic ::
  "normalized_lead \<Rightarrow> user list \<Rightarrow> user option \<Rightarrow> nat option \<Rightarrow> business_result" where
  "applyBusinessLogic normalized counselors defaultCounselor managerId =
     (let assignedCounselorId =
        (case n_counsellors normalized of
           None \<Rightarrow> None
         | Some c \<Rightarrow>
             if c \<noteq> [] \<and> trim c \<noteq> [] then
               (let counselorName = toLowerCase (trim c)
                in case find (\<lambda>u. includesStr (toLowerCase (user_name u)) counselorName
                                   \<or> includesStr counselorName (toLowerCase (user_name u)))
                          counselors of
                     Some matchedCounselor \<Rightarrow> Some (user_id matchedCounselor)
                   | None \<Rightarrow> (case defaultCounselor of
                                 Some d \<Rightarrow> Some (user_id d)
                               | None \<Rightarrow> None))
             else None);
          optimalStage = determineOptimalStage assignedCounselorId (Some (n_currentStage normalized))
      in \<lparr> b_counselorId = assignedCounselorId, b_currentStage = optimalStage \<rparr>)"

section \<open>The store\<close>

text \<open>
  The persistence layer is a collaborator behind \<^verbatim>\<open>storage: any\<close>. It is a parameter of
  the model: a state of any type and four operations on it, each of which resolves with
  a value or rejects with a thrown value.
\<close>

record lead_input =
  l_uid :: string
  l_name :: string
  l_email :: "string option"
  l_phone :: "string option"
  l_country :: jsval
  l_course :: "string option"
  l_intake :: "string option"
  l_source :: "string option"
  l_currentStage :: string
  l_counselorId :: "nat option"
  l_managerId :: "nat option"
  l_prevConsultancy :: "string option"
  l_passportStatus :: "string option"
  l_remarks :: "string option"
  l_counsellors :: "string option"

record remark_input =
  rm_leadId :: nat
  rm_userId :: nat
  rm_content :: string
  rm_isVisible :: bool

record history_input =
  h_leadId :: nat
  h_fromStage :: "string option"
  h_toStage :: string
  h_userId :: nat
  h_reason :: string
  h_createdAt :: js_date

record 's store =
  getAllUsers :: "'s \<Rightarrow> (thrown + user list) \<times> 's"
  createLead :: "lead_input \<Rightarrow> 's \<Rightarrow> (thrown + nat) \<times> 's"
  createRemark :: "remark_input \<Rightarrow> 's \<Rightarrow> (thrown + unit) \<times> 's"
  createStageHistory :: "history_input \<Rightarrow> 's \<Rightarrow> (thrown + unit) \<times> 's"

section \<open>Orchestrator\<close>

record roster =
  ctx_managerId :: "nat option"
  ctx_counselors :: "user list"
  ctx_defaultCounselor :: "user option"

definition fetchRoster :: "'s store \<Rightarrow> 's \<Rightarrow> roster \<times> 's" where
  \<comment> \<open>the setup \<^verbatim>\<open>try\<close>: a rejected lookup leaves the three variables as initialised\<close>
  "fetchRoster storage s =
     (case getAllUsers storage s of
        (Inl e, s1) \<Rightarrow> (\<lparr> ctx_managerId = None, ctx_counselors = [], ctx_defaultCounselor = None \<rparr>, s1)
      | (Inr users, s1) \<Rightarrow>
          (let manager = find (\<lambda>u. includesStr (toLowerCase (user_name u)) ''anupriya''
                                     \<or> user_role u = ''admin'') users;
               cs = filter (\<lambda>u. user_role u = ''counselor'') users
           in (\<lparr> ctx_managerId = (case manager of
                                None \<Rightarrow> None
                              | Some m \<Rightarrow> if user_id m = 0 then None else Some (user_id m)),
                  ctx_counselors = cs,
                  ctx_defaultCounselor =
                    find (\<lambda>c. includesStr (toLowerCase (user_name c)) ''likitha'') cs \<rparr>,
               s1)))"

definition orId :: "nat option \<Rightarrow> nat option \<Rightarrow> nat" where
  \<comment> \<open>\<^verbatim>\<open>counselorId || managerId || 1\<close>\<close>
  "orId counselorId mgr =
     (case counselorId of
        Some c \<Rightarrow> if c \<noteq> 0 then c else (case mgr of Some m \<Rightarrow> if m \<noteq> 0 then m else 1 | None \<Rightarrow> 1)
      | None \<Rightarrow> (case mgr of Some m \<Rightarrow> if m \<noteq> 0 then m else 1 | None \<Rightarrow> 1))"

definition persistLead ::
  "'s store \<Rightarrow> roster \<Rightarrow> normalized_lead \<Rightarrow> business_result \<Rightarrow> 's \<Rightarrow> thrown option \<times> 's" where
  \<comment> \<open>the block under \<^verbatim>\<open>if (!dryRun)\<close>: the lead, then the remark and the stage history
      when their conditions hold; the first rejection ends it\<close>
  "persistLead storage r normalized b s =
     (case createLead storage
             \<lparr> l_uid = n_uid normalized, l_name = n_name normalized,
               l_email = n_email normalized, l_phone = n_phone normalized,
               l_country = n_country normalized, l_course = None,
               l_intake = n_intake normalized, l_source = n_source normalized,
               l_currentStage = b_currentStage b,
               l_counselorId = b_counselorId b, l_managerId = ctx_managerId r,
               l_prevConsultancy = None,
               l_passportStatus = n_passportStatus normalized,
               l_remarks = None, l_counsellors = n_counsellors normalized \<rparr> s of
        (Inl ex, s1) \<Rightarrow> (Some ex, s1)
      | (Inr newLeadId, s1) \<Rightarrow>
          (case (case n_remarks normalized of
                   Some t \<Rightarrow>
                     if t \<noteq> [] \<and> trim t \<noteq> [] then
                       createRemark storage
                         \<lparr> rm_leadId = newLeadId,
                           rm_userId = orId (b_counselorId b) (ctx_managerId r),
                           rm_content = ''Bulk Import: '' @ trim t,
                           rm_isVisible = True \<rparr> s1
                     else (Inr (), s1)
                 | None \<Rightarrow> (Inr (), s1)) of
             (Inl ex, s2) \<Rightarrow> (Some ex, s2)
           | (Inr u, s2) \<Rightarrow>
               (case (if b_currentStage b \<noteq> [] \<and> b_currentStage b \<noteq> ''Yet to Assign''
                      then createStageHistory storage
                             \<lparr> h_leadId = newLeadId, h_fromStage = None,
                               h_toStage = b_currentStage b,
                               h_userId = orId (b_counselorId b) (ctx_managerId r),
                               h_reason = ''Bulk import - '' @
                                 (if truthyId (b_counselorId b)
                                  then ''Assigned to counselor'' else ''Unassigned''),
                               h_createdAt = n_leadCreatedDate normalized \<rparr> s2
                      else (Inr (), s2)) of
                  (Inl ex, s3) \<Rightarrow> (Some ex, s3)
                | (Inr u, s3) \<Rightarrow> (None, s3))))"

definition rowTry ::
  "bool \<Rightarrow> env \<Rightarrow> 's store \<Rightarrow> roster \<Rightarrow> raw_row \<Rightarrow> validation_log \<Rightarrow> field_issues \<Rightarrow> 's
     \<Rightarrow> thrown option \<times> validation_log \<times> field_issues \<times> 's" where
  \<comment> \<open>the body of the row-level \<^verbatim>\<open>try\<close> up to the classification: the exception it
      raises, if any, with the log, the tally and the store as they are by then\<close>
  "rowTry dryRun e storage r rawRow vlog fieldIssues s =
     (case normalizeAndValidateLead e rawRow vlog fieldIssues of
        (Inl ex, log1, fi1) \<Rightarrow> (Some ex, log1, fi1, s)
      | (Inr normalized, log1, fi1) \<Rightarrow>
          (let b = applyBusinessLogic normalized (ctx_counselors r) (ctx_defaultCounselor r)
                     (ctx_managerId r);
               log2 = log1\<lparr>normalizedData :=
                        Data normalized (b_counselorId b) (b_currentStage b)\<rparr>
           in if \<not> dryRun then
                (case persistLead storage r normalized b s of
                   (ex, s1) \<Rightarrow> (ex, log2, fi1, s1))
              else (None, log2, fi1, s)))"

text \<open>The variables of one run that the loops update, and the store.\<close>

record 's run_state =
  st_validationLog :: "validation_log list"
  st_fieldIssues :: field_issues
  st_importedCount :: nat
  st_importedWithIssuesCount :: nat
  st_failedCount :: nat
  st_successfulChunks :: nat
  st_failedChunks :: nat
  st_storage :: 's

definition spreadRow :: "raw_row \<Rightarrow> raw_row" where
  \<comment> \<open>\<^verbatim>\<open>{ ...rawLead }\<close>: spreading \<^verbatim>\<open>null\<close> gives the empty object\<close>
  "spreadRow rawRow = (case rawRow of NullRow \<Rightarrow> Row emptyLead | Row l \<Rightarrow> Row l)"

definition newLog :: "rat \<Rightarrow> raw_row \<Rightarrow> validation_log" where
  "newLog n rawRow =
     \<lparr> rowNumber = n, status = Imported, fixesApplied = [], warnings = [], errors = [],
       originalData = spreadRow rawRow, normalizedData = EmptyData \<rparr>"

definition readMessage :: "thrown \<Rightarrow> thrown + string" where
  \<comment> \<open>\<^verbatim>\<open>error.message || 'Unknown error during processing'\<close> in the row-level handler:
      reading a property of \<^verbatim>\<open>undefined\<close> or \<^verbatim>\<open>null\<close> throws\<close>
  "readMessage ex =
     (case ex of
        ErrorObj n m \<Rightarrow> Inr (if m \<noteq> [] then m else ''Unknown error during processing'')
      | ThrownUndefined \<Rightarrow>
          Inl (typeError (''Cannot read properties of undefined (reading '' @ squoted ''message'' @ '')''))
      | ThrownNull \<Rightarrow>
          Inl (typeError (''Cannot read properties of null (reading '' @ squoted ''message'' @ '')'')))"

definition processRow ::
  "bool \<Rightarrow> env \<Rightarrow> 's store \<Rightarrow> roster \<Rightarrow> rat \<Rightarrow> nat \<Rightarrow> raw_row \<Rightarrow> 's run_state
     \<Rightarrow> thrown option \<times> 's run_state" where
  \<comment> \<open>one pass of the row loop; \<open>Some\<close> is an exception that leaves the row-level handler\<close>
  "processRow dryRun e storage r chunkStartIndex i rawRow st =
     (let vlog = newLog (chunkStartIndex + of_nat i + 1) rawRow
      in case rowTry dryRun e storage r rawRow vlog (st_fieldIssues st) (st_storage st) of
           (None, log1, fi1, s1) \<Rightarrow>
             (let st1 = st\<lparr>st_fieldIssues := fi1, st_storage := s1\<rparr>
              in if warnings log1 \<noteq> [] \<or> fixesApplied log1 \<noteq> []
                 then (None, st1\<lparr>st_importedWithIssuesCount := st_importedWithIssuesCount st1 + 1,
                                 st_validationLog := st_validationLog st1
                                   @ [log1\<lparr>status := ImportedWithIssues\<rparr>]\<rparr>)
                 else (None, st1\<lparr>st_importedCount := st_importedCount st1 + 1,
                                 st_validationLog := st_validationLog st1 @ [log1]\<rparr>))
         | (Some ex, log1, fi1, s1) \<Rightarrow>
             (let st1 = st\<lparr>st_fieldIssues := fi1, st_storage := s1\<rparr>
              in case readMessage ex of
                   Inl ex2 \<Rightarrow> (Some ex2, st1)
                 | Inr m \<Rightarrow>
                     (None, st1\<lparr>st_failedCount := st_failedCount st1 + 1,
                                st_validationLog := st_validationLog st1
                                  @ [log1\<lparr>status := Failed, errors := errors log1 @ [m]\<rparr>]\<rparr>)))"

fun processRows ::
  "bool \<Rightarrow> env \<Rightarrow> 's store \<Rightarrow> roster \<Rightarrow> rat \<Rightarrow> nat \<Rightarrow> raw_row list \<Rightarrow> 's run_state
     \<Rightarrow> thrown option \<times> 's run_state" where
  \<comment> \<open>the row loop from index i on; it stops at an exception that left the row handler\<close>
  "processRows dryRun e storage r chunkStartIndex i [] st = (None, st)"
| "processRows dryRun e storage r chunkStartIndex i (rawRow # rest) st =
     (case processRow dryRun e storage r chunkStartIndex i rawRow st of
        (Some ex, st1) \<Rightarrow> (Some ex, st1)
      | (None, st1) \<Rightarrow> processRows dryRun e storage r chunkStartIndex (Suc i) rest st1)"

definition chunkFailedLog :: "rat \<Rightarrow> thrown \<Rightarrow> nat \<Rightarrow> raw_row \<Rightarrow> validation_log" where
  "chunkFailedLog chunkStartIndex chunkError i rawRow =
     \<lparr> rowNumber = chunkStartIndex + of_nat i + 1, status = Failed, fixesApplied = [],
       warnings = [],
       errors = [''Chunk processing failed: '' @ thrownToString chunkError],
       originalData = rawRow, normalizedData = NoData \<rparr>"

definition processChunk ::
  "bool \<Rightarrow> env \<Rightarrow> 's store \<Rightarrow> roster \<Rightarrow> rat \<Rightarrow> nat \<Rightarrow> raw_row list \<Rightarrow> 's run_state
     \<Rightarrow> 's run_state" where
  \<comment> \<open>one pass of the chunk loop: the row loop in its \<^verbatim>\<open>try\<close>, and the chunk handler\<close>
  "processChunk dryRun e storage r chunkSize chunkIndex chunk st =
     (let chunkStartIndex = of_nat chunkIndex * chunkSize
      in case processRows dryRun e storage r chunkStartIndex 0 chunk st of
           (None, st1) \<Rightarrow> st1\<lparr>st_successfulChunks := st_successfulChunks st1 + 1\<rparr>
         | (Some chunkError, st1) \<Rightarrow>
             st1\<lparr>st_failedChunks := st_failedChunks st1 + 1,
                 st_validationLog := st_validationLog st1
                   @ map (\<lambda>i. chunkFailedLog chunkStartIndex chunkError i (chunk ! i))
                       [0 ..< length chunk],
                 st_failedCount := st_failedCount st1 + length chunk\<rparr>)"

fun processChunks ::
  "bool \<Rightarrow> env \<Rightarrow> 's store \<Rightarrow> roster \<Rightarrow> rat \<Rightarrow> nat \<Rightarrow> raw_row list list \<Rightarrow> 's run_state
     \<Rightarrow> 's run_state" where
  "processChunks dryRun e storage r chunkSize chunkIndex [] st = st"
| "processChunks dryRun e storage r chunkSize chunkIndex (chunk # rest) st =
     processChunks dryRun e storage r chunkSize (Suc chunkIndex) rest
       (processChunk dryRun e storage r chunkSize chunkIndex chunk st)"

text \<open>
  The chunk size is a JavaScript number, and nothing makes it a whole one: the index of
  the chunk-splitting loop, the first index of a chunk and the row numbers are sums and
  products with it. A finite number is modelled by the rational it denotes, and the
  sums and products are those of the rationals (rounding is left out; sums of whole
  numbers and of halves are exact in the code as well). \<^verbatim>\<open>NaN\<close> and the infinities are
  outside the model.
\<close>

definition toInteger :: "rat \<Rightarrow> int" where
  \<comment> \<open>what \<^verbatim>\<open>slice\<close> does to an index first: the fraction is cut off, towards zero\<close>
  "toInteger q = (if q < 0 then \<lceil>q\<rceil> else \<lfloor>q\<rfloor>)"

definition slice :: "'a list \<Rightarrow> rat \<Rightarrow> rat \<Rightarrow> 'a list" where
  \<comment> \<open>\<^verbatim>\<open>xs.slice(start, stop)\<close>: a negative index counts from the end\<close>
  "slice xs start stop =
     (let len = int (length xs);
          relativeStart = toInteger start;
          k = (if relativeStart < 0 then max (len + relativeStart) 0 else min relativeStart len);
          relativeEnd = toInteger stop;
          final = (if relativeEnd < 0 then max (len + relativeEnd) 0 else min relativeEnd len)
      in take (nat (final - k)) (drop (nat k) xs))"

partial_function (option) splitChunks ::
  "'a list \<Rightarrow> rat \<Rightarrow> rat \<Rightarrow> 'a list list \<Rightarrow> 'a list list option" where
  \<comment> \<open>the chunk-splitting loop, from index i on; \<open>None\<close> when it never ends\<close>
  "splitChunks rawLeads chunkSize i chunks =
     (if i < of_nat (length rawLeads)
      then splitChunks rawLeads chunkSize (i + chunkSize)
             (chunks @ [slice rawLeads i (i + chunkSize)])
      else Some chunks)"

declare splitChunks.simps [code]

record chunk_stats =
  totalChunks :: nat
  successfulChunks :: nat
  failedChunks :: nat

text \<open>
  The summary without \<^verbatim>\<open>processingTimeMs\<close>, and the result without
  \<^verbatim>\<open>downloadableReports\<close>, which are two renderings of \<^verbatim>\<open>validationLog\<close> as text.
\<close>

record batch_summary =
  totalRows :: nat
  imported :: nat
  importedWithIssues :: nat
  failed :: nat
  chunkStats :: chunk_stats
  fieldIssues :: field_issues

record import_result =
  success :: bool
  batchSummary :: batch_summary
  validationLog :: "validation_log list"

definition initialState :: "'s \<Rightarrow> 's run_state" where
  "initialState s =
     \<lparr> st_validationLog = [], st_fieldIssues = [], st_importedCount = 0,
       st_importedWithIssuesCount = 0, st_failedCount = 0, st_successfulChunks = 0,
       st_failedChunks = 0, st_storage = s \<rparr>"

definition summarize :: "raw_row list \<Rightarrow> raw_row list list \<Rightarrow> 's run_state \<Rightarrow> import_result" where
  "summarize rawLeads chunks st =
     \<lparr> success = True,
       batchSummary =
         \<lparr> totalRows = length rawLeads,
           imported = st_importedCount st,
           importedWithIssues = st_importedWithIssuesCount st,
           failed = st_failedCount st,
           chunkStats = \<lparr> totalChunks = length chunks,
                          successfulChunks = st_successfulChunks st,
                          failedChunks = st_failedChunks st \<rparr>,
           fieldIssues = st_fieldIssues st \<rparr>,
       validationLog = st_validationLog st \<rparr>"

definition processBulkLeadImport ::
  "env \<Rightarrow> raw_row list \<Rightarrow> bool \<Rightarrow> rat \<Rightarrow> 's store \<Rightarrow> 's \<Rightarrow> (import_result \<times> 's) option" where
  \<comment> \<open>the result and the store as the run leaves it; \<open>None\<close> when the run never returns\<close>
  "processBulkLeadImport e rawLeads dryRun chunkSize storage s =
     (case fetchRoster storage s of
        (r, s1) \<Rightarrow>
          (case splitChunks rawLeads chunkSize 0 [] of
             None \<Rightarrow> None
           | Some chunks \<Rightarrow>
               (let st = processChunks dryRun e storage r chunkSize 0 chunks (initialState s1)
                in Some (summarize rawLeads chunks st, st_storage st))))"

text \<open>
  The route \<^verbatim>\<open>POST /api/imports/leads/bulk\<close>. In the body, \<open>leads\<close> is \<open>None\<close> when the
  field is missing or no array; the other two fields have defaults, which the
  destructuring takes for a missing field only. The chunk size of a body is a number,
  \<^verbatim>\<open>null\<close>, or missing (strings, booleans, arrays and objects in its place are outside
  the model). The route hands it to the run unchecked; there \<^verbatim>\<open>null\<close> is only ever
  added to a number or multiplied with one, where it counts as 0.
\<close>

datatype body_number = NoNumber | NullNumber | Number rat

fun chunkSizeOf :: "body_number \<Rightarrow> rat" where
  \<comment> \<open>\<^verbatim>\<open>chunkSize = 1000\<close> in the destructuring pattern, and \<^verbatim>\<open>null\<close> as the run reads it\<close>
  "chunkSizeOf NoNumber = 1000"
| "chunkSizeOf NullNumber = 0"
| "chunkSizeOf (Number q) = q"

record bulk_body =
  body_leads :: "raw_row list option"
  body_dryRun :: "bool option"
  body_chunkSize :: body_number

datatype response = BadRequest string | Json import_result

definition bulkImportRoute ::
  "env \<Rightarrow> bulk_body \<Rightarrow> 's store \<Rightarrow> 's \<Rightarrow> (response \<times> 's) option" where
  "bulkImportRoute e body storage s =
     (case body_leads body of
        None \<Rightarrow> Some (BadRequest ''Invalid leads data'', s)
      | Some ls \<Rightarrow>
          (case processBulkLeadImport e ls
                  (case body_dryRun body of None \<Rightarrow> False | Some d \<Rightarrow> d)
                  (chunkSizeOf (body_chunkSize body)) storage s of
             None \<Rightarrow> None
           | Some (result, s1) \<Rightarrow> Some (Json result, s1)))"

text \<open>
  A way to say that rows complete: from index i on, the body of the row-level
  \<^verbatim>\<open>try\<close> raises nothing for any of the rows, each run in the state that the rows
  before it leave.
\<close>

fun rowsComplete ::
  "bool \<Rightarrow> env \<Rightarrow> 's store \<Rightarrow> roster \<Rightarrow> rat \<Rightarrow> nat \<Rightarrow> raw_row list \<Rightarrow> 's run_state \<Rightarrow> bool" where
  "rowsComplete dryRun e storage r chunkStartIndex i [] st = True"
| "rowsComplete dryRun e storage r chunkStartIndex i (rawRow # rest) st =
     (fst (rowTry dryRun e storage r rawRow (newLog (chunkStartIndex + of_nat i + 1) rawRow)
             (st_fieldIssues st) (st_storage st)) = None
      \<and> rowsComplete dryRun e storage r chunkStartIndex (Suc i) rest
            (snd (processRow dryRun e storage r chunkStartIndex i rawRow st)))"

text \<open>The rows counted so far, and two ways to speak of thrown values that are objects.\<close>

definition countedRows :: "'s run_state \<Rightarrow> nat" where
  "countedRows st = st_importedCount st + st_importedWithIssuesCount st + st_failedCount st"

fun isErrorObj :: "thrown \<Rightarrow> bool" where
  "isErrorObj (ErrorObj n m) = True"
| "isErrorObj ThrownUndefined = False"
| "isErrorObj ThrownNull = False"

definition rejectsWithObjects :: "'s store \<Rightarrow> bool" where
  \<comment> \<open>whenever a create operation of the store rejects, it rejects with an object\<close>
  "rejectsWithObjects storage =
     ((\<forall>l s ex s'. createLead storage l s = (Inl ex, s') \<longrightarrow> isErrorObj ex)
      \<and> (\<forall>x s ex s'. createRemark storage x s = (Inl ex, s') \<longrightarrow> isErrorObj ex)
      \<and> (\<forall>h s ex s'. createStageHistory storage h s = (Inl ex, s') \<longrightarrow> isErrorObj ex))"

text \<open>
  What two runs of the same rows have in common when only their clocks differ. Two
  normalized rows are alike when they agree in every field that is not read from the
  clock, that is, in all but the uid (generated from the time when missing), the
  creation date (the current time when missing or unparseable) and the text of the
  intake (the next year is put in when it names none), which both have or both lack.
  Two log entries are alike when they have the same
  row number, status, warnings, errors and original data, when their lists of fixes are
  both empty or both not (the text of a fix may name the year), and when their
  normalized data are alike, with the same counselor and stage. Two steps of the
  validator are alike when, from like entries, both raise the same exception or both
  return, and leave like entries; two states of a run are alike when their logs are,
  entry by entry, and their counters are equal.
\<close>

definition sameLead :: "normalized_lead \<Rightarrow> normalized_lead \<Rightarrow> bool" where
  "sameLead a b =
     (n_name a = n_name b \<and> n_currentStage a = n_currentStage b \<and> n_country a = n_country b
      \<and> n_phone a = n_phone b \<and> n_email a = n_email b \<and> n_source a = n_source b
      \<and> n_passportStatus a = n_passportStatus b \<and> n_remarks a = n_remarks b
      \<and> n_counsellors a = n_counsellors b
      \<and> (n_intake a = None) = (n_intake b = None))"

fun sameData :: "norm_data \<Rightarrow> norm_data \<Rightarrow> bool" where
  "sameData (Data a c st) (Data b c' st') = (sameLead a b \<and> c = c' \<and> st = st')"
| "sameData NoData NoData = True"
| "sameData EmptyData EmptyData = True"
| "sameData x y = False"

definition sameButClock :: "validation_log \<Rightarrow> validation_log \<Rightarrow> bool" where
  "sameButClock a b =
     (rowNumber a = rowNumber b \<and> status a = status b \<and> warnings a = warnings b
      \<and> errors a = errors b \<and> originalData a = originalData b
      \<and> (fixesApplied a = []) = (fixesApplied b = [])
      \<and> sameData (normalizedData a) (normalizedData b))"

definition stepRel :: "('a \<Rightarrow> 'b \<Rightarrow> bool) \<Rightarrow> 'a norm_step \<Rightarrow> 'b norm_step \<Rightarrow> bool" where
  "stepRel Q m1 m2 =
     (\<forall>l1 fi1 l2 fi2. sameButClock l1 l2 \<longrightarrow>
        (case (m1 (l1, fi1), m2 (l2, fi2)) of
           ((Inl x, k1, g1), (Inl y, k2, g2)) \<Rightarrow> x = y \<and> sameButClock k1 k2
         | ((Inr a, k1, g1), (Inr b, k2, g2)) \<Rightarrow> Q a b \<and> sameButClock k1 k2
         | _ \<Rightarrow> False))"

definition sameProgress :: "'s run_state \<Rightarrow> 's run_state \<Rightarrow> bool" where
  "sameProgress a b =
     (list_all2 sameButClock (st_validationLog a) (st_validationLog b)
      \<and> st_importedCount a = st_importedCount b
      \<and> st_importedWithIssuesCount a = st_importedWithIssuesCount b
      \<and> st_failedCount a = st_failedCount b
      \<and> st_successfulChunks a = st_successfulChunks b
      \<and> st_failedChunks a = st_failedChunks b)"

section \<open>Sample surroundings\<close>

text \<open>A clock, a date parser that accepts the shape \<^verbatim>\<open>YYYY-MM-DD\<close> only, two users, and
  stores whose state counts the leads created.\<close>

definition isoDate :: "string \<Rightarrow> bool" where
  "isoDate s =
     (length s = 10 \<and> list_all isDigit (take 4 s) \<and> s ! 4 = CHR ''-''
        \<and> list_all isDigit (take 2 (drop 5 s)) \<and> s ! 7 = CHR ''-''
        \<and> list_all isDigit (drop 8 s))"

definition demoEnv :: env where
  "demoEnv =
     \<lparr> nowMs = (\<lambda>n. 1762070400000), fullYear = (\<lambda>n. 2025),
       dateValid = (\<lambda>v. case v of JStr s \<Rightarrow> isoDate s | _ \<Rightarrow> False) \<rparr>"

definition laterEnv :: env where
  \<comment> \<open>the clock one millisecond on\<close>
  "laterEnv = demoEnv\<lparr> nowMs := (\<lambda>n. 1762070400001) \<rparr>"

definition demoUsers :: "user list" where
  "demoUsers =
     [\<lparr> user_id = 1, user_name = ''Anupriya'', user_role = ''admin'' \<rparr>,
      \<lparr> user_id = 2, user_name = ''Likitha'', user_role = ''counselor'' \<rparr>]"

definition demoStore :: "nat store" where
  "demoStore =
     \<lparr> getAllUsers = (\<lambda>s. (Inr demoUsers, s)),
       createLead = (\<lambda>l s. (Inr (Suc s), Suc s)),
       createRemark = (\<lambda>x s. (Inr (), s)),
       createStageHistory = (\<lambda>h s. (Inr (), s)) \<rparr>"

definition rejectingStore :: "thrown \<Rightarrow> nat store" where
  \<comment> \<open>every insert of a lead is rejected with the given value\<close>
  "rejectingStore ex = demoStore\<lparr> createLead := (\<lambda>l s. (Inl ex, s)) \<rparr>"

definition pickyStore :: "thrown \<Rightarrow> string \<Rightarrow> nat store" where
  \<comment> \<open>the insert of the lead with the given uid is rejected with the given value\<close>
  "pickyStore ex badUid =
     demoStore\<lparr> createLead := (\<lambda>l s. if l_uid l = badUid then (Inl ex, s) else (Inr (Suc s), Suc s)) \<rparr>"

definition namedLead :: "string \<Rightarrow> raw_row" where
  \<comment> \<open>a row with a uid, a name and a stage\<close>
  "namedLead u =
     Row (emptyLead\<lparr> r_uid := JStr u, r_name := JStr ''Asha'', r_currentStage := JStr ''Applied'' \<rparr>)"

definition demoRoster :: roster where
  "demoRoster =
     \<lparr> ctx_managerId = Some 1,
       ctx_counselors = [\<lparr> user_id = 2, user_name = ''Likitha'', user_role = ''counselor'' \<rparr>],
       ctx_defaultCounselor = Some \<lparr> user_id = 2, user_name = ''Likitha'', user_role = ''counselor'' \<rparr> \<rparr>"

definition offlineStore :: "nat store" where
  \<comment> \<open>the roster lookup is rejected\<close>
  "offlineStore = demoStore\<lparr> getAllUsers := (\<lambda>s. (Inl (ErrorObj ''Error'' ''connection refused''), s)) \<rparr>"

section \<open>Termination of the run\<close>

lemma floor_rat_numeral:
  "\<lfloor>(numeral a :: rat) / numeral b\<rfloor> = numeral a div numeral b"
  using floor_divide_of_int_eq [of "numeral a" "numeral b", where ?'a = rat] by simp

lemma floor_rat_one_numeral:
  "\<lfloor>(1 :: rat) / numeral b\<rfloor> = 1 div numeral b"
  using floor_divide_of_int_eq [of 1 "numeral b", where ?'a = rat] by simp

lemmas slice_eval = slice_def toInteger_def floor_rat_numeral floor_rat_one_numeral

lemma splitChunks_total:
  assumes "1 / 2 \<le> chunkSize"
  shows "\<exists>chunks. splitChunks rawLeads chunkSize i acc = Some chunks"
proof (induction "nat \<lceil>2 * (of_nat (length rawLeads) - i)\<rceil>" arbitrary: i acc rule: less_induct)
  case less
  show ?case
  proof (cases "i < of_nat (length rawLeads)")
    case True
    define x where "x = 2 * (of_nat (length rawLeads) - i)"
    have pos: "0 < x" using True by (simp add: x_def)
    have "2 * (of_nat (length rawLeads) - (i + chunkSize)) \<le> x - 1"
      using assms by (simp add: x_def algebra_simps)
    then have "\<lceil>2 * (of_nat (length rawLeads) - (i + chunkSize))\<rceil> \<le> \<lceil>x - 1\<rceil>"
      by (rule ceiling_mono)
    moreover have "\<lceil>x - 1\<rceil> = \<lceil>x\<rceil> - 1" by simp
    moreover have "0 < \<lceil>x\<rceil>" using pos by simp
    ultimately have "nat \<lceil>2 * (of_nat (length rawLeads) - (i + chunkSize))\<rceil>
                       < nat \<lceil>2 * (of_nat (length rawLeads) - i)\<rceil>"
      unfolding x_def by linarith
    from less.hyps [OF this]
    show ?thesis using True by (subst splitChunks.simps) simp
  next
    case False
    then show ?thesis by (subst splitChunks.simps) simp
  qed
qed

lemma splitChunks_stuck:
  assumes "splitChunks rawLeads chunkSize i acc = Some chunks"
  shows "\<not> (chunkSize \<le> 0 \<and> i < of_nat (length rawLeads) \<and> i \<le> 0)"
proof (rule splitChunks.raw_induct [where P = "\<lambda>rawLeads chunkSize i acc chunks.
         \<not> (chunkSize \<le> 0 \<and> i < of_nat (length rawLeads) \<and> i \<le> 0)", OF _ assms])
  fix f :: "'a list \<Rightarrow> rat \<Rightarrow> rat \<Rightarrow> 'a list list \<Rightarrow> 'a list list option"
  fix xs :: "'a list" and cs i :: rat and acc ys
  assume IH: "\<And>xs cs i acc ys. f xs cs i acc = Some ys
                \<Longrightarrow> \<not> (cs \<le> 0 \<and> i < of_nat (length xs) \<and> i \<le> 0)"
  assume step: "(if i < of_nat (length xs) then f xs cs (i + cs) (acc @ [slice xs i (i + cs)])
                 else Some acc) = Some ys"
  show "\<not> (cs \<le> 0 \<and> i < of_nat (length xs) \<and> i \<le> 0)"
  proof
    assume h: "cs \<le> 0 \<and> i < of_nat (length xs) \<and> i \<le> 0"
    with step have "f xs cs (i + cs) (acc @ [slice xs i (i + cs)]) = Some ys" by simp
    from IH [OF this] h show False by linarith
  qed
qed

lemma splitChunks_never_returns:
  "chunkSize \<le> 0 \<Longrightarrow> rawLeads \<noteq> [] \<Longrightarrow> splitChunks rawLeads chunkSize 0 [] = None"
proof (cases "splitChunks rawLeads chunkSize 0 []")
  case None
  then show ?thesis .
next
  case (Some chunks)
  assume "chunkSize \<le> 0" "rawLeads \<noteq> []"
  with splitChunks_stuck [OF Some] show ?thesis by simp
qed

lemma run_returns:
  assumes "1 / 2 \<le> chunkSize"
  shows "\<exists>res s'. processBulkLeadImport e rawLeads dryRun chunkSize storage s = Some (res, s')
           \<and> success res"
proof -
  obtain chunks where "splitChunks rawLeads chunkSize 0 [] = Some chunks"
    using splitChunks_total [OF assms] by blast
  then show ?thesis
    by (simp add: processBulkLeadImport_def summarize_def Let_def split: prod.splits)
qed

lemma run_never_returns:
  assumes "chunkSize \<le> 0" "rawLeads \<noteq> []"
  shows "processBulkLeadImport e rawLeads dryRun chunkSize storage s = None"
  using splitChunks_never_returns [OF assms]
  by (simp add: processBulkLeadImport_def split: prod.splits)

text \<open>
  C3. For an array of rows and a chunk size of at least 1 the run returns a result, and
  the result has \<open>success = True\<close>, whatever the rows are, whatever the store does (its
  inserts may be rejected with any thrown value, its roster lookup may be rejected) and
  in both modes. A thrown value is a value of the model: every one is taken up by the
  row handler, the chunk handler or the setup handler, and what the run hands back is a
  result record. The two report texts are not part of the modelled result.
\<close>

theorem C3_run_returns_success:
  "1 \<le> chunkSize \<Longrightarrow>
     \<exists>res s'. processBulkLeadImport e rawLeads dryRun chunkSize storage s = Some (res, s')
        \<and> success res = True"
  using run_returns [of chunkSize e rawLeads dryRun storage s] by simp

theorem C3_witness:
  "(1::rat) \<le> 2 \<and>
   (\<exists>res s'. processBulkLeadImport demoEnv [NullRow, Row emptyLead, NullRow] False 2
                offlineStore 0 = Some (res, s') \<and> success res = True)"
  using C3_run_returns_success [of 2 demoEnv "[NullRow, Row emptyLead, NullRow]" False offlineStore 0]
  by simp

text \<open>
  C10, as stated, fails: a chunk size of at least 1 is not the only one under which the
  run returns. With the chunk size 1/2 the index of the chunk-splitting loop goes 0,
  1/2, 1, 3/2, 2 over two rows and the loop ends with the four chunks \<open>[]\<close>, \<open>[row 1]\<close>,
  \<open>[]\<close>, \<open>[row 2]\<close>; the run returns, with the row numbers 3/2 and 5/2. The loop ends
  in the same way over every array.
\<close>

theorem C10_counterexample:
  "\<not> (1::rat) \<le> 1 / 2
   \<and> splitChunks [NullRow, Row emptyLead] (1 / 2) 0 [] = Some [[], [NullRow], [], [Row emptyLead]]
   \<and> map_option (totalChunks \<circ> chunkStats \<circ> batchSummary \<circ> fst)
       (processBulkLeadImport demoEnv [NullRow, Row emptyLead] True (1 / 2) demoStore 0)
     = Some 4
   \<and> map_option (map rowNumber \<circ> validationLog \<circ> fst)
       (processBulkLeadImport demoEnv [NullRow, Row emptyLead] True (1 / 2) demoStore 0)
     = Some [3 / 2, 5 / 2]"
proof -
  have sp: "\<And>a b :: raw_row. splitChunks [a, b] (1 / 2) 0 [] = Some [[], [a], [], [b]]"
    by (simp add: splitChunks.simps slice_eval)
  show ?thesis
    by (simp add: sp processBulkLeadImport_def fetchRoster_def processChunk_def processRow_def
          rowTry_def readMessage_def summarize_def initialState_def typeError_def
          normalizeAndValidateLead_def applyBusinessLogic_def determineOptimalStage_def
          truthyId_def uidStep_def nameStep_def stageStep_def dateStep_def intakeStep_def
          countryStep_def phoneStep_def emailStep_def guardE_def bindE_def returnE_def
          pushFix_def pushWarning_def pushError_def addFieldIssue_def newLog_def spreadRow_def
          demoEnv_def demoStore_def demoUsers_def emptyLead_def toLowerCase_def isUpper_def
          startsWith_def genUid_def showNat.simps Let_def)
qed

text \<open>
  C10, amended. A chunk size of at least 1 is enough for the run to return for every
  array of rows, and it is not needed: with the chunk size 1/2 the run returns for
  every array as well. With a chunk size of 0 or less and at least one row, the index
  of the chunk-splitting loop never passes the length of the array and the run does not
  return; the route hands the chunk size of the request body to the run as it is, so
  the request gets no response either, and the same holds for a body whose chunk size
  is \<^verbatim>\<open>null\<close>.
\<close>

theorem C10_termination:
  "(1 \<le> chunkSize \<longrightarrow>
      (\<exists>out. processBulkLeadImport e rawLeads dryRun chunkSize storage s = Some out))
   \<and> (\<exists>out. processBulkLeadImport e rawLeads dryRun (1 / 2) storage s = Some out)
   \<and> (chunkSize \<le> 0 \<and> rawLeads \<noteq> [] \<longrightarrow>
        processBulkLeadImport e rawLeads dryRun chunkSize storage s = None
        \<and> bulkImportRoute e \<lparr> body_leads = Some rawLeads, body_dryRun = Some dryRun,
                                body_chunkSize = Number chunkSize \<rparr> storage s = None)
   \<and> (rawLeads \<noteq> [] \<longrightarrow>
        bulkImportRoute e \<lparr> body_leads = Some rawLeads, body_dryRun = Some dryRun,
                              body_chunkSize = NullNumber \<rparr> storage s = None)"
proof (intro conjI impI)
  assume "1 \<le> chunkSize"
  then have "1 / 2 \<le> chunkSize" by simp
  from run_returns [OF this, of e rawLeads dryRun storage s]
  show "\<exists>out. processBulkLeadImport e rawLeads dryRun chunkSize storage s = Some out"
    by blast
next
  have "(1::rat) / 2 \<le> 1 / 2" by simp
  from run_returns [OF this, of e rawLeads dryRun storage s]
  show "\<exists>out. processBulkLeadImport e rawLeads dryRun (1 / 2) storage s = Some out"
    by blast
next
  assume "chunkSize \<le> 0 \<and> rawLeads \<noteq> []"
  then show "processBulkLeadImport e rawLeads dryRun chunkSize storage s = None"
    by (simp add: run_never_returns)
next
  assume "chunkSize \<le> 0 \<and> rawLeads \<noteq> []"
  then show "bulkImportRoute e \<lparr> body_leads = Some rawLeads, body_dryRun = Some dryRun,
                body_chunkSize = Number chunkSize \<rparr> storage s = None"
    by (simp add: bulkImportRoute_def run_never_returns)
next
  assume "rawLeads \<noteq> []"
  then show "bulkImportRoute e \<lparr> body_leads = Some rawLeads, body_dryRun = Some dryRun,
                body_chunkSize = NullNumber \<rparr> storage s = None"
    by (simp add: bulkImportRoute_def run_never_returns)
qed

theorem C10_witness:
  "(\<exists>out. processBulkLeadImport demoEnv [NullRow] True 1 demoStore 0 = Some out)
   \<and> (\<exists>out. processBulkLeadImport demoEnv [NullRow] True (1 / 2) demoStore 0 = Some out)
   \<and> processBulkLeadImport demoEnv [NullRow] True 0 demoStore 0 = None
   \<and> bulkImportRoute demoEnv \<lparr> body_leads = Some [NullRow], body_dryRun = Some True,
                                 body_chunkSize = Number 0 \<rparr> demoStore 0 = None
   \<and> bulkImportRoute demoEnv \<lparr> body_leads = Some [NullRow], body_dryRun = Some True,
                                 body_chunkSize = NullNumber \<rparr> demoStore 0 = None"
  using C10_termination [of 1 demoEnv "[NullRow]" True demoStore 0]
        C10_termination [of 0 demoEnv "[NullRow]" True demoStore 0]
  by simp

lemmas string_eval = toLowerCase_def isUpper_def isDigit_def isSpace_def trim_def startsWith_def
  quoted_def arrow_def squoted_def digitChar_def

section \<open>Phone and country normalizers\<close>

text \<open>
  C6, as stated, fails: the cleaning keeps every plus sign, not only a leading one. For
  the input \<open>12+34\<close> the result is \<open>12+34\<close>, and what follows its first character is
  not all digits.
\<close>

theorem C6_counterexample:
  "fst (normalizePhone ''12+34'' (newLog 1 NullRow) []) = ''12+34''
   \<and> \<not> list_all isDigit (tl (fst (normalizePhone ''12+34'' (newLog 1 NullRow) [])))"
  by (simp add: normalizePhone_def isDigit_def Let_def split: prod.splits)

lemma digit_of_kept: "(\<lambda>x. (isDigit x \<or> x = CHR ''+'') \<and> isDigit x) = isDigit"
  by auto

text \<open>
  C6, amended. For every input the phone normalizer returns the input without the
  characters that are neither a digit nor a plus sign, so the result consists of digits
  and plus signs, a plus sign at any place being kept. No error is logged. If the result
  has fewer than 10 digits, one warning is logged and the cleaned value is still
  returned; otherwise no warning. One fix is logged exactly when the result differs
  from the input.
\<close>

theorem C6_phone_keeps_digits_and_plus:
  "normalizePhone phone vlog fi = (p, log', fi') \<Longrightarrow>
     p = filter (\<lambda>c. isDigit c \<or> c = CHR ''+'') phone
     \<and> (\<forall>c \<in> set p. isDigit c \<or> c = CHR ''+'')
     \<and> errors log' = errors vlog
     \<and> warnings log' =
         (if length (filter isDigit p) < 10
          then warnings vlog @ [''Phone number '' @ quoted phone @ '' appears to be too short'']
          else warnings vlog)
     \<and> fixesApplied log' =
         (if p \<noteq> phone
          then fixesApplied vlog @ [''Cleaned phone number from '' @ quoted phone @ '' to '' @ quoted p]
          else fixesApplied vlog)"
proof -
  assume run: "normalizePhone phone vlog fi = (p, log', fi')"
  define n where "n = filter (\<lambda>c. isDigit c \<or> c = CHR ''+'') phone"
  define log1 where "log1 = (if length (filter isDigit n) < 10
     then pushWarning (''Phone number '' @ quoted phone @ '' appears to be too short'') vlog
     else vlog)"
  define log2 where "log2 = (if n \<noteq> phone
     then pushFix (''Cleaned phone number from '' @ quoted phone @ '' to '' @ quoted n) log1
     else log1)"
  have "fst (normalizePhone phone vlog fi) = n" "fst (snd (normalizePhone phone vlog fi)) = log2"
    by (simp_all add: normalizePhone_def Let_def n_def log1_def log2_def digit_of_kept
          split: prod.splits)
  with run have p: "p = n" and l: "log' = log2" by simp_all
  have kept: "\<forall>c \<in> set n. isDigit c \<or> c = CHR ''+''" by (simp add: n_def)
  have e: "errors log2 = errors vlog"
    by (simp add: log2_def log1_def pushFix_def pushWarning_def)
  have w: "warnings log2 = (if length (filter isDigit n) < 10
          then warnings vlog @ [''Phone number '' @ quoted phone @ '' appears to be too short'']
          else warnings vlog)"
    by (simp add: log2_def log1_def pushFix_def pushWarning_def)
  have f: "fixesApplied log2 = (if n \<noteq> phone
          then fixesApplied vlog @ [''Cleaned phone number from '' @ quoted phone @ '' to '' @ quoted n]
          else fixesApplied vlog)"
    by (simp add: log2_def log1_def pushFix_def pushWarning_def)
  show ?thesis
    unfolding p l by (intro conjI n_def kept e w f)
qed

theorem C6_witness:
  "\<exists>log'. normalizePhone ''+1 (555) 123-4567'' (newLog 1 NullRow) [] = (''+15551234567'', log', [])
      \<and> errors log' = [] \<and> warnings log' = [] \<and> length (fixesApplied log') = 1"
  using C6_phone_keeps_digits_and_plus [of "''+1 (555) 123-4567''" "newLog 1 NullRow" "[]"
     "fst (normalizePhone ''+1 (555) 123-4567'' (newLog 1 NullRow) [])"
     "fst (snd (normalizePhone ''+1 (555) 123-4567'' (newLog 1 NullRow) []))"
     "snd (snd (normalizePhone ''+1 (555) 123-4567'' (newLog 1 NullRow) []))"]
  by (simp add: normalizePhone_def isDigit_def Let_def newLog_def quoted_def pushFix_def)

text \<open>
  C9 at the input \<open>constructor\<close>, which is no key of the alias table: the lookup finds
  the property every object inherits, so the normalizer returns that function instead
  of the original text, logs a fix and logs no warning.
\<close>

theorem C9_inherited_property:
  "normalizeCountry ''constructor'' (newLog 1 NullRow) [] =
     (JOther ''function Object() { [native code] }'',
      (newLog 1 NullRow)\<lparr>fixesApplied :=
         [''Normalized country from '' @ quoted ''constructor'' @ '' to ''
            @ quoted ''function Object() { [native code] }'']\<rparr>,
      [(''country'', \<lparr>count = 1, samples = [''Normalized: constructor '' @ arrow
            @ '' function Object() { [native code] }'']\<rparr>)])"
  by (simp add: normalizeCountry_def countryMapGet_def countryMap_def objectPrototype_def string_eval Let_def nativeFunction_def pushFix_def addFieldIssue_def newLog_def)

text \<open>
  Elsewhere the country normalizer does what C9 says: an alias gives its code, with a
  fix exactly when the code differs from the input, and a text that is neither an alias
  nor the name of an inherited property is returned as it is, with a warning.
\<close>

lemma countryMap_codes: "map_of countryMap k = Some code \<Longrightarrow> code \<noteq> []"
  by (auto simp: countryMap_def split: if_splits)

lemma normalizeCountry_known:
  "map_of countryMap (trim (toLowerCase country)) = Some code \<Longrightarrow>
   normalizeCountry country vlog fi = (v, log', fi') \<Longrightarrow>
     v = JStr code \<and> warnings log' = warnings vlog \<and> errors log' = errors vlog
     \<and> (fixesApplied log' \<noteq> fixesApplied vlog \<longleftrightarrow> code \<noteq> country)"
  using countryMap_codes [of "trim (toLowerCase country)" code]
  by (auto simp: normalizeCountry_def countryMapGet_def Let_def pushFix_def split: if_splits)

lemma normalizeCountry_unknown:
  "map_of countryMap (trim (toLowerCase country)) = None \<Longrightarrow>
   map_of objectPrototype (trim (toLowerCase country)) = None \<Longrightarrow>
   normalizeCountry country vlog fi =
     (JStr country,
      pushWarning (''Country '' @ quoted country @ '' could not be normalized to ISO code'') vlog,
      addFieldIssue fi ''country'' (''Unknown country: '' @ country))"
  by (simp add: normalizeCountry_def countryMapGet_def Let_def)

section \<open>Intake normalizer\<close>

lemma toLowerChar_digit: "isDigit c \<Longrightarrow> toLowerChar c = c"
  by (auto simp: isDigit_def isUpper_def)

lemma toLowerCase_digits: "list_all isDigit ds \<Longrightarrow> toLowerCase ds = ds"
  by (induction ds) (simp_all add: toLowerCase_def toLowerChar_digit)

lemma includesStr_digits_prefix:
  "list_all isDigit ds \<Longrightarrow> k \<noteq> [] \<Longrightarrow> \<not> isDigit (hd k) \<Longrightarrow> includesStr (ds @ t) k = includesStr t k"
proof (induction ds)
  case Nil
  then show ?case by simp
next
  case (Cons d ds)
  from Cons.prems obtain kh kt where k: "k = kh # kt" by (cases k) auto
  have "\<not> startsWith (d # ds @ t) k" using Cons.prems k by (auto simp: startsWith_def)
  then show ?case using Cons by simp
qed

lemma yearMatch_digits_prefix:
  "length y = 4 \<Longrightarrow> list_all isDigit y \<Longrightarrow> yearMatch (y @ t) = Some y"
  by (cases y) simp_all

lemma findSeason_canonical:
  assumes "list_all isDigit y"
  shows "findSeason (y @ ''-spring'') = ''Spring''"
    and "findSeason (y @ ''-summer'') = ''Summer''"
    and "findSeason (y @ ''-fall'') = ''Fall''"
    and "findSeason (y @ ''-winter'') = ''Winter''"
  using assms
  by (simp_all add: findSeason_def seasonMap_def includesStr_digits_prefix isDigit_def startsWith_def)

lemma normalizeIntake_canonical:
  assumes "length y = 4" "list_all isDigit y"
    and "season \<in> set [''Spring'', ''Summer'', ''Fall'', ''Winter'']"
  shows "normalizeIntake fy (y @ ''-'' @ season) vlog fi = (y @ ''-'' @ season, vlog, fi)"
proof -
  have low: "toLowerCase (y @ ''-'' @ season) = y @ ''-'' @ toLowerCase season"
    using toLowerCase_digits [OF assms(2)] by (simp add: toLowerCase_def isUpper_def)
  have ym: "yearMatch (y @ ''-'' @ toLowerCase season) = Some y"
    using yearMatch_digits_prefix [OF assms(1,2)] by simp
  have fs: "findSeason (y @ ''-'' @ toLowerCase season) = season"
    using assms(3) findSeason_canonical [OF assms(2)]
    by (auto simp: toLowerCase_def isUpper_def)
  have ne: "season \<noteq> []" using assms(3) by auto
  show ?thesis
    by (simp add: normalizeIntake_def Let_def low ym fs ne del: append.simps append_Cons)
qed

lemma yearMatch_Some: "yearMatch s = Some y \<Longrightarrow> length y = 4 \<and> list_all isDigit y"
  by (induction s) (auto split: if_splits)

lemma digitChar_isDigit: "d < 10 \<Longrightarrow> isDigit (digitChar d)"
proof -
  assume "d < 10"
  then have "d \<in> {0, 1, 2, 3, 4, 5, 6, 7, 8, 9}" by auto
  then show ?thesis by (auto simp: digitChar_def isDigit_def)
qed

lemma showNat_digits: "list_all isDigit (showNat n)"
proof (induction n rule: showNat.induct)
  case (1 n)
  show ?case
  proof (cases "n < 10")
    case True
    then show ?thesis by (subst showNat.simps) (simp add: digitChar_isDigit)
  next
    case False
    with 1 show ?thesis by (subst showNat.simps) (simp add: digitChar_isDigit)
  qed
qed

lemma showNat_length_small: "n < 10 \<Longrightarrow> length (showNat n) = 1"
  by (subst showNat.simps) simp

lemma showNat_length_step: "10 \<le> n \<Longrightarrow> length (showNat n) = Suc (length (showNat (n div 10)))"
  by (subst showNat.simps) simp

lemma showNat_length_4: "1000 \<le> n \<Longrightarrow> n \<le> 9999 \<Longrightarrow> length (showNat n) = 4"
proof -
  assume a: "1000 \<le> n" "n \<le> 9999"
  have "length (showNat n) = Suc (length (showNat (n div 10)))"
    using a by (intro showNat_length_step) simp
  also have "length (showNat (n div 10)) = Suc (length (showNat (n div 10 div 10)))"
    using a by (intro showNat_length_step) simp
  also have "length (showNat (n div 10 div 10)) = Suc (length (showNat (n div 10 div 10 div 10)))"
    using a by (intro showNat_length_step) simp
  also have "length (showNat (n div 10 div 10 div 10)) = 1"
    using a by (intro showNat_length_small) simp
  finally show ?thesis by simp
qed

lemma findSeason_range:
  "findSeason s \<in> set [[], ''Spring'', ''Summer'', ''Fall'', ''Winter'']"
  by (simp add: findSeason_def seasonMap_def)

lemma normalizeIntake_result_canonical:
  assumes "1000 \<le> fy + 1" "fy + 1 \<le> 9999"
  shows "\<exists>y season. fst (normalizeIntake fy intake vlog fi) = y @ ''-'' @ season
           \<and> length y = 4 \<and> list_all isDigit y
           \<and> season \<in> set [''Spring'', ''Summer'', ''Fall'', ''Winter'']"
proof -
  define y where "y = (case yearMatch (toLowerCase intake) of Some y \<Rightarrow> y | None \<Rightarrow> showNat (fy + 1))"
  define season where "season = (if findSeason (toLowerCase intake) = [] then ''Fall''
                                 else findSeason (toLowerCase intake))"
  have r: "fst (normalizeIntake fy intake vlog fi) = y @ ''-'' @ season"
    by (simp add: normalizeIntake_def Let_def y_def season_def split: option.splits prod.splits)
  have y4: "length y = 4 \<and> list_all isDigit y"
    using assms yearMatch_Some [of "toLowerCase intake"] showNat_digits [of "fy + 1"]
      showNat_length_4 [of "fy + 1"]
    by (auto simp: y_def split: option.splits)
  have s: "season \<in> set [''Spring'', ''Summer'', ''Fall'', ''Winter'']"
    using findSeason_range [of "toLowerCase intake"] by (auto simp: season_def)
  from r y4 s show ?thesis by blast
qed

text \<open>
  C8. An intake that is already in the canonical form, four digits, a hyphen and one of
  Spring, Summer, Fall, Winter, is returned as it is, and neither the log nor the tally
  changes: no fix is logged. And the normalizer applied to its own output returns that
  output and logs nothing, the output being canonical whenever the year that stands in
  for a missing one has four digits.
\<close>

theorem C8_intake_idempotent:
  "(length y = 4 \<and> list_all isDigit y
      \<and> season \<in> set [''Spring'', ''Summer'', ''Fall'', ''Winter''] \<longrightarrow>
        normalizeIntake fy (y @ ''-'' @ season) vlog fi = (y @ ''-'' @ season, vlog, fi))
   \<and> (1000 \<le> fy0 + 1 \<and> fy0 + 1 \<le> 9999 \<longrightarrow>
        normalizeIntake fy (fst (normalizeIntake fy0 intake log0 fi0)) vlog fi
          = (fst (normalizeIntake fy0 intake log0 fi0), vlog, fi))"
proof (intro conjI impI)
  assume "length y = 4 \<and> list_all isDigit y
      \<and> season \<in> set [''Spring'', ''Summer'', ''Fall'', ''Winter'']"
  then show "normalizeIntake fy (y @ ''-'' @ season) vlog fi = (y @ ''-'' @ season, vlog, fi)"
    by (intro normalizeIntake_canonical) simp_all
next
  assume a: "1000 \<le> fy0 + 1 \<and> fy0 + 1 \<le> 9999"
  then obtain y' s' where c: "fst (normalizeIntake fy0 intake log0 fi0) = y' @ ''-'' @ s'"
      "length y' = 4" "list_all isDigit y'"
      "s' \<in> set [''Spring'', ''Summer'', ''Fall'', ''Winter'']"
    using normalizeIntake_result_canonical [of fy0 intake log0 fi0] by blast
  show "normalizeIntake fy (fst (normalizeIntake fy0 intake log0 fi0)) vlog fi
          = (fst (normalizeIntake fy0 intake log0 fi0), vlog, fi)"
    unfolding c(1) by (rule normalizeIntake_canonical [OF c(2,3,4)])
qed

theorem C8_witness:
  "normalizeIntake 2025 ''2025-Fall'' (newLog 1 NullRow) [] = (''2025-Fall'', newLog 1 NullRow, [])
   \<and> fst (normalizeIntake 2025 ''next spring'' (newLog 1 NullRow) []) = ''2026-Spring''
   \<and> normalizeIntake 2025 ''2026-Spring'' (newLog 2 NullRow) [] = (''2026-Spring'', newLog 2 NullRow, [])"
proof -
  have r: "fst (normalizeIntake 2025 ''next spring'' (newLog 1 NullRow) []) = ''2026-Spring''"
    by (simp add: normalizeIntake_def findSeason_def seasonMap_def toLowerCase_def isUpper_def
          isDigit_def startsWith_def showNat.simps digitChar_def Let_def)
  show ?thesis
    using C8_intake_idempotent [of "''2025''" "''Fall''" 2025 "newLog 1 NullRow" "[]" 2025
            "''next spring''" "newLog 1 NullRow" "[]"]
          C8_intake_idempotent [of "''2025''" "''Fall''" 2025 "newLog 2 NullRow" "[]" 2025
            "''next spring''" "newLog 1 NullRow" "[]"]
    by (simp add: r isDigit_def)
qed

lemmas step_defs = uidStep_def nameStep_def stageStep_def dateStep_def intakeStep_def countryStep_def
  phoneStep_def emailStep_def guardE_def bindE_def returnE_def
lemmas log_defs = pushFix_def pushWarning_def pushError_def addFieldIssue_def newLog_def spreadRow_def
lemmas run_defs = processBulkLeadImport_def fetchRoster_def processChunk_def processRow_def rowTry_def
  persistLead_def
  readMessage_def chunkFailedLog_def summarize_def initialState_def typeError_def
  normalizeAndValidateLead_def applyBusinessLogic_def determineOptimalStage_def truthyId_def orId_def
lemmas demo_defs = demoEnv_def demoStore_def rejectingStore_def offlineStore_def demoUsers_def emptyLead_def isoDate_def
  pickyStore_def namedLead_def demoRoster_def

section \<open>Counters of a run\<close>

lemma split2: "splitChunks [a, b] 2 0 [] = Some [[a, b]]"
  by (simp add: splitChunks.simps slice_eval)

lemma split1: "splitChunks [a] 1 0 [] = Some [[a]]"
  by (simp add: splitChunks.simps slice_eval)

lemma split3: "splitChunks [a, b, c] 3 0 [] = Some [[a, b, c]]"
  by (simp add: splitChunks.simps slice_eval)

text \<open>
  C1 at a run whose chunk handler fires after a row of the chunk was counted: two rows in
  one chunk, the first \<^verbatim>\<open>null\<close>, and a store that rejects the insert of the second
  with \<^verbatim>\<open>undefined\<close>. The first row is counted as failed by the row handler. In the
  row handler of the second, reading \<^verbatim>\<open>error.message\<close> throws, the chunk handler
  takes over and counts both rows of the chunk as failed again: \<open>failed\<close> is 3 for 2 rows.
\<close>

theorem C1_chunk_handler_counts_twice:
  "map_option (batchSummary \<circ> fst)
     (processBulkLeadImport demoEnv [NullRow, Row emptyLead] False 2 (rejectingStore ThrownUndefined) 0)
   = Some \<lparr> totalRows = 2, imported = 0, importedWithIssues = 0, failed = 3,
            chunkStats = \<lparr> totalChunks = 1, successfulChunks = 0, failedChunks = 1 \<rparr>,
            fieldIssues = [(''uid'', \<lparr>count = 1, samples = [''Missing UID - generated automatically'']\<rparr>)] \<rparr>
   \<and> map_option (map (\<lambda>l. (rowNumber l, status l)) \<circ> validationLog \<circ> fst)
     (processBulkLeadImport demoEnv [NullRow, Row emptyLead] False 2 (rejectingStore ThrownUndefined) 0)
   = Some [(1, Failed), (1, Failed), (2, Failed)]"
  by (simp add: split2 run_defs step_defs log_defs demo_defs string_eval genUid_def showNat.simps Let_def upt_rec)


section \<open>Stage of a row without an explicit stage\<close>

text \<open>
  C5 at a row with no \<^verbatim>\<open>currentStage\<close>, once with no counselor hint and once with a
  hint that matches a counselor: the validator has already put its own default
  \<open>Yet to Assign\<close> in place, the business rules take that for a requested stage, and
  the stage of the lead is \<open>Yet to Assign\<close> in both cases, not \<open>Yet to Contact\<close>.
\<close>

theorem C5_stage_without_explicit_stage:
  "(case normalizedData (fst (snd (rowTry True demoEnv demoStore
            \<lparr>ctx_managerId = Some 1, ctx_counselors = [\<lparr>user_id = 2, user_name = ''Likitha'', user_role = ''counselor''\<rparr>],
              ctx_defaultCounselor = None\<rparr>
            (Row emptyLead) (newLog 1 (Row emptyLead)) [] 0))) of
      Data n counselorId currentStage \<Rightarrow> Some (counselorId, currentStage) | _ \<Rightarrow> None)
     = Some (None, ''Yet to Assign'')
   \<and> (case normalizedData (fst (snd (rowTry True demoEnv demoStore
            \<lparr>ctx_managerId = Some 1, ctx_counselors = [\<lparr>user_id = 2, user_name = ''Likitha'', user_role = ''counselor''\<rparr>],
              ctx_defaultCounselor = None\<rparr>
            (Row (emptyLead\<lparr>r_counsellors := JStr ''Likitha''\<rparr>))
            (newLog 1 (Row (emptyLead\<lparr>r_counsellors := JStr ''Likitha''\<rparr>))) [] 0))) of
      Data n counselorId currentStage \<Rightarrow> Some (counselorId, currentStage) | _ \<Rightarrow> None)
     = Some (Some 2, ''Yet to Assign'')"
  by (simp add: run_defs step_defs log_defs demo_defs string_eval genUid_def showNat.simps Let_def)

text \<open>The same for every row without an explicit stage that the validator accepts.\<close>

lemma bindE_Inr:
  "bindE m f s = (Inr v, l, fi) \<Longrightarrow> \<exists>a l1 fi1. m s = (Inr a, l1, fi1) \<and> f a (l1, fi1) = (Inr v, l, fi)"
  by (auto simp: bindE_def split: prod.splits sum.splits)

lemma stageStep_default:
  "nonBlank ''currentStage'' (r_currentStage l) = Inr None \<Longrightarrow> stageStep l s = (Inr st, l1, fi1)
     \<Longrightarrow> st = ''Yet to Assign''"
  by (cases s) (auto simp: stageStep_def bindE_def guardE_def returnE_def split: prod.splits)

lemma stageStep_explicit:
  "nonBlank ''currentStage'' (r_currentStage l) = Inr (Some t) \<Longrightarrow> stageStep l s = (Inr st, l1, fi1)
     \<Longrightarrow> st = t"
  by (cases s) (auto simp: stageStep_def bindE_def guardE_def returnE_def split: prod.splits)

lemma normalize_stage:
  assumes "normalizeAndValidateLead e (Row l) vlog fi = (Inr n, log', fi')"
  shows "\<exists>s l1 fi1. stageStep l s = (Inr (n_currentStage n), l1, fi1)"
  using assms unfolding normalizeAndValidateLead_def
  by (auto dest!: bindE_Inr simp: returnE_def) blast

lemma pipeline_stage_default:
  assumes "normalizeAndValidateLead e (Row l) vlog fi = (Inr n, log', fi')"
    and "nonBlank ''currentStage'' (r_currentStage l) = Inr None"
  shows "b_currentStage (applyBusinessLogic n cs dc m) = ''Yet to Assign''"
proof -
  from normalize_stage [OF assms(1)] stageStep_default [OF assms(2)]
  have "n_currentStage n = ''Yet to Assign''" by blast
  then show ?thesis
    by (simp add: applyBusinessLogic_def determineOptimalStage_def Let_def trim_def isSpace_def)
qed

text \<open>An explicit stage that is not blank is the stage of the lead, trimmed.\<close>

lemma last_dropWhile: "dropWhile P xs \<noteq> [] \<Longrightarrow> last (dropWhile P xs) = last xs"
  by (induction xs) (auto split: if_splits)

lemma trim_ends:
  assumes "trim s \<noteq> []"
  shows "\<not> isSpace (hd (trim s))" "\<not> isSpace (last (trim s))"
proof -
  define u where "u = dropWhile isSpace s"
  define v where "v = dropWhile isSpace (rev u)"
  have t: "trim s = rev v" by (simp add: trim_def u_def v_def)
  with assms have v: "v \<noteq> []" by simp
  then have u: "u \<noteq> []" by (auto simp: v_def)
  have "\<not> isSpace (hd v)" using v unfolding v_def by (rule hd_dropWhile)
  then show "\<not> isSpace (last (trim s))" using v by (simp add: t last_rev)
  have "last v = last (rev u)" using v unfolding v_def by (rule last_dropWhile)
  then have "hd (rev v) = hd u" using v u by (simp add: hd_rev last_rev)
  moreover have "\<not> isSpace (hd u)" using u unfolding u_def by (rule hd_dropWhile)
  ultimately show "\<not> isSpace (hd (trim s))" by (simp add: t)
qed

lemma dropWhile_keep: "xs \<noteq> [] \<Longrightarrow> \<not> P (hd xs) \<Longrightarrow> dropWhile P xs = xs"
  by (cases xs) auto

lemma trim_idem: "trim (trim s) = trim s"
proof (cases "trim s = []")
  case True
  then show ?thesis by (simp add: trim_def [of "[]"])
next
  case False
  note e = trim_ends [OF False]
  have a: "dropWhile isSpace (trim s) = trim s" using False e(1) by (rule dropWhile_keep)
  have "dropWhile isSpace (rev (trim s)) = rev (trim s)"
    using False e(2) by (intro dropWhile_keep) (simp_all add: hd_rev)
  with a show ?thesis by (simp add: trim_def [of "trim s"])
qed

lemma nonBlank_trimmed: "nonBlank f v = Inr (Some t) \<Longrightarrow> t \<noteq> [] \<and> trim t = t"
  by (cases v) (auto simp: trim_idem split: if_splits)

lemma pipeline_stage_explicit:
  assumes "normalizeAndValidateLead e (Row l) vlog fi = (Inr n, log', fi')"
    and "nonBlank ''currentStage'' (r_currentStage l) = Inr (Some t)"
  shows "b_currentStage (applyBusinessLogic n cs dc m) = t"
proof -
  from normalize_stage [OF assms(1)] stageStep_explicit [OF assms(2)]
  have "n_currentStage n = t" by blast
  with nonBlank_trimmed [OF assms(2)] show ?thesis
    by (simp add: applyBusinessLogic_def determineOptimalStage_def Let_def)
qed

section \<open>One bad row in a chunk\<close>

lemma status_push [simp]:
  "status (pushFix m l) = status l" "status (pushWarning m l) = status l"
  "status (pushError m l) = status l"
  by (simp_all add: pushFix_def pushWarning_def pushError_def)

lemma normalizeIntake_status: "normalizeIntake fy t l fi = (v, l', fi') \<Longrightarrow> status l' = status l"
  by (auto simp: normalizeIntake_def Let_def split: option.splits prod.splits if_splits)

lemma normalizeCountry_status: "normalizeCountry t l fi = (v, l', fi') \<Longrightarrow> status l' = status l"
  by (auto simp: normalizeCountry_def Let_def split: if_splits)

lemma normalizePhone_status: "normalizePhone t l fi = (v, l', fi') \<Longrightarrow> status l' = status l"
  by (auto simp: normalizePhone_def Let_def split: if_splits prod.splits)

lemma normalizeEmail_status: "normalizeEmail t l fi = (v, l', fi') \<Longrightarrow> status l' = status l"
  by (auto simp: normalizeEmail_def Let_def split: if_splits)

lemma guardE_status: "guardE f v (l, fi) = (x, l', fi') \<Longrightarrow> status l' = status l"
  by (auto simp: guardE_def)

lemma uidStep_status: "uidStep e raw (l, fi) = (x, l', fi') \<Longrightarrow> status l' = status l"
  by (auto simp: uidStep_def bindE_def guardE_def returnE_def split: sum.splits option.splits)

lemma nameStep_status: "nameStep raw (l, fi) = (x, l', fi') \<Longrightarrow> status l' = status l"
  by (auto simp: nameStep_def bindE_def guardE_def returnE_def split: sum.splits option.splits)

lemma stageStep_status: "stageStep raw (l, fi) = (x, l', fi') \<Longrightarrow> status l' = status l"
  by (auto simp: stageStep_def bindE_def guardE_def returnE_def split: sum.splits option.splits)

lemma dateStep_status: "dateStep e raw (l, fi) = (x, l', fi') \<Longrightarrow> status l' = status l"
  by (auto simp: dateStep_def Let_def split: if_splits option.splits)

lemma intakeStep_status: "intakeStep e raw (l, fi) = (x, l', fi') \<Longrightarrow> status l' = status l"
  by (auto simp: intakeStep_def bindE_def guardE_def split: sum.splits option.splits prod.splits
        dest: normalizeIntake_status)

lemma countryStep_status: "countryStep raw (l, fi) = (x, l', fi') \<Longrightarrow> status l' = status l"
  by (auto simp: countryStep_def bindE_def guardE_def split: sum.splits option.splits prod.splits
        dest: normalizeCountry_status)

lemma phoneStep_status: "phoneStep raw (l, fi) = (x, l', fi') \<Longrightarrow> status l' = status l"
  by (auto simp: phoneStep_def bindE_def guardE_def split: sum.splits option.splits prod.splits
        dest: normalizePhone_status)

lemma emailStep_status: "emailStep raw (l, fi) = (x, l', fi') \<Longrightarrow> status l' = status l"
  by (auto simp: emailStep_def bindE_def guardE_def returnE_def split: sum.splits option.splits prod.splits
        dest: normalizeEmail_status)

lemmas step_status = uidStep_status nameStep_status stageStep_status dateStep_status
  intakeStep_status countryStep_status phoneStep_status emailStep_status guardE_status


lemma bindE_keeps:
  assumes "bindE m f (l, fi) = (x, l', fi')"
    and "\<And>l fi x l' fi'. m (l, fi) = (x, l', fi') \<Longrightarrow> status l' = status l"
    and "\<And>a l fi x l' fi'. f a (l, fi) = (x, l', fi') \<Longrightarrow> status l' = status l"
  shows "status l' = status l"
proof (cases "m (l, fi)")
  case (fields r l1 fi1)
  show ?thesis
  proof (cases r)
    case (Inl ex)
    with fields assms(1) have "l' = l1" by (simp add: bindE_def)
    with assms(2) [OF fields] show ?thesis by simp
  next
    case (Inr a)
    with fields assms(1) have "f a (l1, fi1) = (x, l', fi')" by (simp add: bindE_def)
    from assms(3) [OF this] assms(2) [OF fields] show ?thesis by simp
  qed
qed

lemma returnE_status: "returnE v (l, fi) = (x, l', fi') \<Longrightarrow> status l' = status l"
  by (auto simp: returnE_def)

lemma normalize_status:
  "normalizeAndValidateLead e rawRow l fi = (x, l', fi') \<Longrightarrow> status l' = status l"
  unfolding normalizeAndValidateLead_def
  apply (cases rawRow)
   apply simp
  apply simp
  apply (erule bindE_keeps, erule step_status)+
  apply (erule returnE_status)
  done


lemma rowTry_status:
  assumes "rowTry dryRun e storage r rawRow l fi s = (ex, l', fi', s')"
  shows "status l' = status l"
proof -
  obtain x log1 fi1 where n: "normalizeAndValidateLead e rawRow l fi = (x, log1, fi1)"
    by (metis prod_cases3)
  from normalize_status [OF n] have "status log1 = status l" .
  with assms show ?thesis
    unfolding rowTry_def n Let_def
    by (auto split: sum.splits prod.splits if_splits option.splits)
qed

lemma processRow_complete:
  assumes "fst (rowTry dryRun e storage r rawRow (newLog (c + of_nat i + 1) rawRow)
             (st_fieldIssues st) (st_storage st)) = None"
  shows "\<exists>entry st'. processRow dryRun e storage r c i rawRow st = (None, st')
       \<and> st_validationLog st' = st_validationLog st @ [entry]
       \<and> status entry = (if warnings entry \<noteq> [] \<or> fixesApplied entry \<noteq> []
                          then ImportedWithIssues else Imported)
       \<and> st_failedCount st' = st_failedCount st
       \<and> st_successfulChunks st' = st_successfulChunks st
       \<and> st_failedChunks st' = st_failedChunks st"
proof -
  obtain log1 fi1 s1 where t: "rowTry dryRun e storage r rawRow (newLog (c + of_nat i + 1) rawRow)
             (st_fieldIssues st) (st_storage st) = (None, log1, fi1, s1)"
    using assms by (metis prod.collapse)
  have st0: "status log1 = Imported"
    using rowTry_status [OF t] by (simp add: newLog_def)
  show ?thesis
    using st0 by (simp add: processRow_def t Let_def)
qed

lemma processRows_complete:
  "rowsComplete dryRun e storage r c i rows st \<Longrightarrow>
     \<exists>logs st'. processRows dryRun e storage r c i rows st = (None, st')
       \<and> st_validationLog st' = st_validationLog st @ logs
       \<and> length logs = length rows
       \<and> (\<forall>l \<in> set logs. status l = (if warnings l \<noteq> [] \<or> fixesApplied l \<noteq> []
                          then ImportedWithIssues else Imported))
       \<and> st_failedCount st' = st_failedCount st
       \<and> st_successfulChunks st' = st_successfulChunks st
       \<and> st_failedChunks st' = st_failedChunks st"
proof (induction rows arbitrary: i st)
  case Nil
  then show ?case by simp
next
  case (Cons rawRow rest)
  from Cons.prems have a: "fst (rowTry dryRun e storage r rawRow (newLog (c + of_nat i + 1) rawRow)
             (st_fieldIssues st) (st_storage st)) = None" by simp
  from processRow_complete [OF a] obtain entry st1 where
    p: "processRow dryRun e storage r c i rawRow st = (None, st1)"
    and q: "st_validationLog st1 = st_validationLog st @ [entry]"
      "status entry = (if warnings entry \<noteq> [] \<or> fixesApplied entry \<noteq> []
                          then ImportedWithIssues else Imported)"
      "st_failedCount st1 = st_failedCount st"
      "st_successfulChunks st1 = st_successfulChunks st"
      "st_failedChunks st1 = st_failedChunks st" by blast
  from Cons.prems p have b: "rowsComplete dryRun e storage r c (Suc i) rest st1" by simp
  from Cons.IH [OF b] obtain logs st2 where
    r: "processRows dryRun e storage r c (Suc i) rest st1 = (None, st2)"
      "st_validationLog st2 = st_validationLog st1 @ logs"
      "length logs = length rest"
      "\<forall>l \<in> set logs. status l = (if warnings l \<noteq> [] \<or> fixesApplied l \<noteq> []
                          then ImportedWithIssues else Imported)"
      "st_failedCount st2 = st_failedCount st1"
      "st_successfulChunks st2 = st_successfulChunks st1"
      "st_failedChunks st2 = st_failedChunks st1"
    by blast
  have "processRows dryRun e storage r c i (rawRow # rest) st = (None, st2)"
    by (simp add: p r(1))
  moreover have "st_validationLog st2 = st_validationLog st @ (entry # logs)"
    by (simp add: q(1) r(2))
  moreover have "\<forall>l \<in> set (entry # logs). status l = (if warnings l \<noteq> [] \<or> fixesApplied l \<noteq> []
                          then ImportedWithIssues else Imported)"
    using q(2) r(4) by simp
  ultimately show ?case
    using q(3-5) r(3,5-7) by (intro exI [of _ "entry # logs"] exI [of _ st2]) simp
qed

lemma processRows_append:
  "processRows dryRun e storage r c i (xs @ ys) st =
     (case processRows dryRun e storage r c i xs st of
        (Some ex, st1) \<Rightarrow> (Some ex, st1)
      | (None, st1) \<Rightarrow> processRows dryRun e storage r c (i + length xs) ys st1)"
  by (induction xs arbitrary: i st) (auto split: prod.splits option.splits)

lemma processRow_caught:
  assumes "rowTry dryRun e storage r rawRow (newLog (c + of_nat i + 1) rawRow)
             (st_fieldIssues st) (st_storage st) = (Some (ErrorObj n m), log1, fi1, s1)"
  shows "processRow dryRun e storage r c i rawRow st =
     (None, st\<lparr>st_fieldIssues := fi1, st_storage := s1,
               st_failedCount := st_failedCount st + 1,
               st_validationLog := st_validationLog st
                 @ [log1\<lparr>status := Failed,
                         errors := errors log1 @ [if m \<noteq> [] then m else ''Unknown error during processing'']\<rparr>]\<rparr>)"
  by (simp add: processRow_def assms readMessage_def Let_def)


text \<open>
  C4, as stated, fails for an exception whose message is empty (\<^verbatim>\<open>new Error()\<close>): the
  row handler appends the text \<open>Unknown error during processing\<close> in its place, by
  \<^verbatim>\<open>error.message || 'Unknown error during processing'\<close>.
\<close>

theorem C4_counterexample:
  "fst (rowTry False demoEnv (pickyStore (ErrorObj ''Error'' []) ''U-2'') demoRoster
          (namedLead ''U-2'') (newLog 1 (namedLead ''U-2'')) [] 0) = Some (ErrorObj ''Error'' [])
   \<and> map errors (st_validationLog (processChunk False demoEnv
          (pickyStore (ErrorObj ''Error'' []) ''U-2'') demoRoster 1 0 [namedLead ''U-2''] (initialState 0)))
       = [[''Unknown error during processing'']]
   \<and> map errors (st_validationLog (processChunk False demoEnv
          (pickyStore (ErrorObj ''Error'' []) ''U-2'') demoRoster 1 0 [namedLead ''U-2''] (initialState 0)))
       \<noteq> [[[]]]"
  by (simp add: run_defs step_defs log_defs demo_defs string_eval genUid_def showNat.simps Let_def)

text \<open>
  C4, amended. Take a chunk in which the rows before and after one row complete and the
  processing of that one row raises an exception that is an object (not \<^verbatim>\<open>undefined\<close>
  or \<^verbatim>\<open>null\<close>). Then every row of the chunk gets exactly one log entry, in order;
  the entry of that row is Failed, with the message of the exception, or the text
  \<open>Unknown error during processing\<close> when the message is empty, appended to its
  errors; every other entry is classified by the usual rule; \<open>successfulChunks\<close> grows
  by one, \<open>failedChunks\<close> stays, and \<open>failed\<close> grows by one.
\<close>

theorem C4_single_bad_row:
  assumes pre: "rowsComplete dryRun e storage r c 0 pre st"
    and bad: "rowTry dryRun e storage r bad (newLog (c + of_nat (length pre) + 1) bad)
                (st_fieldIssues (snd (processRows dryRun e storage r c 0 pre st)))
                (st_storage (snd (processRows dryRun e storage r c 0 pre st)))
              = (Some (ErrorObj n m), log1, fi1, s1)"
    and post: "rowsComplete dryRun e storage r c (Suc (length pre)) post
                (snd (processRow dryRun e storage r c (length pre) bad
                   (snd (processRows dryRun e storage r c 0 pre st))))"
    and c: "c = of_nat chunkIndex * chunkSize"
  shows "\<exists>preLogs postLogs.
      st_validationLog (processChunk dryRun e storage r chunkSize chunkIndex (pre @ bad # post) st)
        = st_validationLog st @ preLogs
            @ [log1\<lparr>status := Failed,
                    errors := errors log1
                      @ [if m \<noteq> [] then m else ''Unknown error during processing'']\<rparr>]
            @ postLogs
      \<and> length preLogs = length pre \<and> length postLogs = length post
      \<and> (\<forall>l \<in> set (preLogs @ postLogs).
            status l = (if warnings l \<noteq> [] \<or> fixesApplied l \<noteq> []
                        then ImportedWithIssues else Imported))
      \<and> st_successfulChunks (processChunk dryRun e storage r chunkSize chunkIndex (pre @ bad # post) st)
          = st_successfulChunks st + 1
      \<and> st_failedChunks (processChunk dryRun e storage r chunkSize chunkIndex (pre @ bad # post) st)
          = st_failedChunks st
      \<and> st_failedCount (processChunk dryRun e storage r chunkSize chunkIndex (pre @ bad # post) st)
          = st_failedCount st + 1"
proof -
  from processRows_complete [OF pre] obtain preLogs st1 where
    p: "processRows dryRun e storage r c 0 pre st = (None, st1)"
      "st_validationLog st1 = st_validationLog st @ preLogs"
      "length preLogs = length pre"
      "\<forall>l \<in> set preLogs. status l = (if warnings l \<noteq> [] \<or> fixesApplied l \<noteq> []
                          then ImportedWithIssues else Imported)"
      "st_failedCount st1 = st_failedCount st"
      "st_successfulChunks st1 = st_successfulChunks st"
      "st_failedChunks st1 = st_failedChunks st"
    by blast
  define entry where "entry = log1\<lparr>status := Failed,
      errors := errors log1 @ [if m \<noteq> [] then m else ''Unknown error during processing'']\<rparr>"
  define st2 where "st2 = st1\<lparr>st_fieldIssues := fi1, st_storage := s1,
               st_failedCount := st_failedCount st1 + 1,
               st_validationLog := st_validationLog st1 @ [entry]\<rparr>"
  from bad have "rowTry dryRun e storage r bad (newLog (c + of_nat (length pre) + 1) bad)
       (st_fieldIssues st1) (st_storage st1) = (Some (ErrorObj n m), log1, fi1, s1)"
    by (simp add: p(1))
  from processRow_caught [OF this]
  have b: "processRow dryRun e storage r c (length pre) bad st1 = (None, st2)"
    by (simp add: st2_def entry_def)
  from post have "rowsComplete dryRun e storage r c (Suc (length pre)) post st2"
    by (simp add: p(1) b)
  from processRows_complete [OF this] obtain postLogs st3 where
    q: "processRows dryRun e storage r c (Suc (length pre)) post st2 = (None, st3)"
      "st_validationLog st3 = st_validationLog st2 @ postLogs"
      "length postLogs = length post"
      "\<forall>l \<in> set postLogs. status l = (if warnings l \<noteq> [] \<or> fixesApplied l \<noteq> []
                          then ImportedWithIssues else Imported)"
      "st_failedCount st3 = st_failedCount st2"
      "st_successfulChunks st3 = st_successfulChunks st2"
      "st_failedChunks st3 = st_failedChunks st2"
    by blast
  have all: "processRows dryRun e storage r c 0 (pre @ bad # post) st = (None, st3)"
    by (simp add: processRows_append p(1) b q(1))
  have chunk: "processChunk dryRun e storage r chunkSize chunkIndex (pre @ bad # post) st
      = st3\<lparr>st_successfulChunks := st_successfulChunks st3 + 1\<rparr>"
    using all c by (simp add: processChunk_def Let_def)
  have logs: "st_validationLog st3 = st_validationLog st @ preLogs @ [entry] @ postLogs"
    by (simp add: q(2) st2_def p(2))
  have rule: "\<forall>l \<in> set (preLogs @ postLogs).
            status l = (if warnings l \<noteq> [] \<or> fixesApplied l \<noteq> []
                        then ImportedWithIssues else Imported)"
    using p(4) q(4) by auto
  have counts: "st_successfulChunks st3 = st_successfulChunks st"
     "st_failedChunks st3 = st_failedChunks st" "st_failedCount st3 = st_failedCount st + 1"
    by (simp_all add: q(5-7) st2_def p(5-7))
  show ?thesis
    unfolding chunk
    by (intro exI [of _ preLogs] exI [of _ postLogs])
       (use logs rule counts p(3) q(3) in \<open>simp add: entry_def\<close>)
qed


theorem C4_witness:
  "\<exists>preLogs entry postLogs.
     st_validationLog (processChunk False demoEnv
        (pickyStore (ErrorObj ''Error'' ''duplicate key'') ''U-2'') demoRoster 3 0
        [namedLead ''U-1'', namedLead ''U-2'', namedLead ''U-3''] (initialState 0))
       = preLogs @ [entry] @ postLogs
     \<and> length preLogs = 1 \<and> length postLogs = 1
     \<and> status entry = Failed \<and> errors entry = [''duplicate key'']
     \<and> st_successfulChunks (processChunk False demoEnv
          (pickyStore (ErrorObj ''Error'' ''duplicate key'') ''U-2'') demoRoster 3 0
          [namedLead ''U-1'', namedLead ''U-2'', namedLead ''U-3''] (initialState 0)) = 1
     \<and> st_failedChunks (processChunk False demoEnv
          (pickyStore (ErrorObj ''Error'' ''duplicate key'') ''U-2'') demoRoster 3 0
          [namedLead ''U-1'', namedLead ''U-2'', namedLead ''U-3''] (initialState 0)) = 0"
proof -
  let ?S = "pickyStore (ErrorObj ''Error'' ''duplicate key'') ''U-2''"
  let ?st1 = "snd (processRows False demoEnv ?S demoRoster 0 0 [namedLead ''U-1''] (initialState 0))"
  let ?t = "rowTry False demoEnv ?S demoRoster (namedLead ''U-2'')
              (newLog (0 + of_nat (length [namedLead ''U-1'']) + 1) (namedLead ''U-2''))
              (st_fieldIssues ?st1) (st_storage ?st1)"
  have pre: "rowsComplete False demoEnv ?S demoRoster 0 0 [namedLead ''U-1''] (initialState 0)"
    by (simp add: run_defs step_defs log_defs demo_defs string_eval Let_def)
  have "fst ?t = Some (ErrorObj ''Error'' ''duplicate key'')"
    by (simp add: run_defs step_defs log_defs demo_defs string_eval Let_def)
  then have bad: "?t = (Some (ErrorObj ''Error'' ''duplicate key''),
                        fst (snd ?t), fst (snd (snd ?t)), snd (snd (snd ?t)))"
    by (metis prod.collapse)
  have noerr: "errors (fst (snd ?t)) = []"
    by (simp add: run_defs step_defs log_defs demo_defs string_eval Let_def)
  have post: "rowsComplete False demoEnv ?S demoRoster 0 (Suc (length [namedLead ''U-1'']))
                [namedLead ''U-3'']
                (snd (processRow False demoEnv ?S demoRoster 0 (length [namedLead ''U-1''])
                        (namedLead ''U-2'') ?st1))"
    by (simp add: run_defs step_defs log_defs demo_defs string_eval Let_def)
  have c: "(0::rat) = of_nat 0 * 3" by simp
  let ?res = "processChunk False demoEnv ?S demoRoster 3 0
                ([namedLead ''U-1''] @ namedLead ''U-2'' # [namedLead ''U-3'']) (initialState 0)"
  define entry where "entry = (fst (snd ?t))\<lparr>status := Failed,
      errors := errors (fst (snd ?t)) @ [if ''duplicate key'' \<noteq> [] then ''duplicate key''
                                        else ''Unknown error during processing'']\<rparr>"
  from C4_single_bad_row [OF pre bad post c] obtain preLogs postLogs where
    r: "st_validationLog ?res = st_validationLog (initialState (0::nat)) @ preLogs @ [entry] @ postLogs"
      "length preLogs = length [namedLead ''U-1'']" "length postLogs = length [namedLead ''U-3'']"
      "st_successfulChunks ?res = st_successfulChunks (initialState (0::nat)) + 1"
      "st_failedChunks ?res = st_failedChunks (initialState (0::nat))"
    unfolding entry_def by blast
  have e: "status entry = Failed" "errors entry = [''duplicate key'']"
    using noerr by (simp_all add: entry_def)
  have "st_validationLog ?res = preLogs @ [entry] @ postLogs"
    "st_successfulChunks ?res = 1" "st_failedChunks ?res = 0"
    using r by (simp_all add: initialState_def)
  with r(2,3) e show ?thesis
    by (intro exI [of _ preLogs] exI [of _ entry] exI [of _ postLogs]) simp
qed

section \<open>Status of a row\<close>

text \<open>
  What holds of one pass of the row loop that ends in the row handler or without an
  exception: it appends one log entry, and the status of that entry is Failed exactly
  when the body of the row-level \<^verbatim>\<open>try\<close> raised an exception, ImportedWithIssues
  exactly when it raised none and the warnings or the fixes are not empty, and Imported
  exactly when it raised none and both are empty. The errors list plays no part: a row
  without name and stage in a dry run has two entries in its errors list and the status
  ImportedWithIssues.
\<close>

lemma row_handler_status:
  assumes "rowTry dryRun e storage r rawRow (newLog (c + of_nat i + 1) rawRow)
             (st_fieldIssues st) (st_storage st) = (ex, log1, fi1, s1)"
    and "processRow dryRun e storage r c i rawRow st = (None, st')"
  shows "\<exists>entry. st_validationLog st' = st_validationLog st @ [entry]
      \<and> (status entry = Failed \<longleftrightarrow> ex \<noteq> None)
      \<and> (status entry = ImportedWithIssues
           \<longleftrightarrow> ex = None \<and> (warnings entry \<noteq> [] \<or> fixesApplied entry \<noteq> []))
      \<and> (status entry = Imported
           \<longleftrightarrow> ex = None \<and> warnings entry = [] \<and> fixesApplied entry = [])
      \<and> warnings entry = warnings log1 \<and> fixesApplied entry = fixesApplied log1"
proof -
  have st0: "status log1 = Imported"
    using rowTry_status [OF assms(1)] by (simp add: newLog_def)
  show ?thesis
  proof (cases ex)
    case None
    with assms st0 show ?thesis
      by (auto simp: processRow_def Let_def split: if_splits)
  next
    case (Some x)
    with assms st0 show ?thesis
      by (auto simp: processRow_def Let_def split: sum.splits)
  qed
qed


lemma row_without_name_not_failed:
  "\<exists>entry. st_validationLog (snd (processRow True demoEnv demoStore demoRoster 0 0
                (Row emptyLead) (initialState 0))) = [entry]
     \<and> errors entry = [''Missing required student name'', ''Missing required current stage'']
     \<and> status entry = ImportedWithIssues \<and> status entry \<noteq> Failed"
proof -
  let ?t = "rowTry True demoEnv demoStore demoRoster (Row emptyLead)
              (newLog (0 + of_nat 0 + 1) (Row emptyLead))
              (st_fieldIssues (initialState (0::nat))) (st_storage (initialState (0::nat)))"
  let ?p = "processRow True demoEnv demoStore demoRoster 0 0 (Row emptyLead) (initialState 0)"
  have "fst ?t = None"
    by (simp add: run_defs step_defs log_defs demo_defs string_eval genUid_def showNat.simps Let_def)
  then have t: "?t = (None, fst (snd ?t), fst (snd (snd ?t)), snd (snd (snd ?t)))"
    by (metis prod.collapse)
  have "fst ?p = None"
    by (simp add: run_defs step_defs log_defs demo_defs string_eval genUid_def showNat.simps Let_def)
  then have p: "?p = (None, snd ?p)"
    by (metis prod.collapse)
  have w: "warnings (fst (snd ?t)) \<noteq> []"
    by (simp add: run_defs step_defs log_defs demo_defs string_eval genUid_def showNat.simps Let_def)
  have er: "map errors (st_validationLog (snd ?p))
      = [[''Missing required student name'', ''Missing required current stage'']]"
    by (simp add: run_defs step_defs log_defs demo_defs string_eval genUid_def showNat.simps Let_def)
  from row_handler_status [OF t p] obtain entry where
    e: "st_validationLog (snd ?p) = st_validationLog (initialState (0::nat)) @ [entry]"
      "status entry = Failed \<longleftrightarrow> (None :: thrown option) \<noteq> None"
      "status entry = ImportedWithIssues
           \<longleftrightarrow> (None :: thrown option) = None \<and> (warnings entry \<noteq> [] \<or> fixesApplied entry \<noteq> [])"
      "warnings entry = warnings (fst (snd ?t))"
    by blast
  from e(1) have l: "st_validationLog (snd ?p) = [entry]" by (simp add: initialState_def)
  with er have "errors entry = [''Missing required student name'', ''Missing required current stage'']"
    by simp
  with l e(2,3,4) w show ?thesis by auto
qed

text \<open>
  C2 at a run whose chunk handler fires after a row of the chunk was classified: three
  rows in one chunk and a store that rejects the insert of the second with
  \<^verbatim>\<open>undefined\<close>. The first row is stored and logged as ImportedWithIssues. In the row
  handler of the second, reading \<^verbatim>\<open>error.message\<close> throws, the chunk handler takes
  over and logs every row of the chunk as Failed. The entry of the first row stays as it
  is: the log holds a status other than Failed for a row whose chunk handler fired, and
  two entries with two statuses for that row. One lead is in the store.
\<close>

theorem C2_classified_row_keeps_status:
  "map_option (map (\<lambda>l. (rowNumber l, status l)) \<circ> validationLog \<circ> fst)
     (processBulkLeadImport demoEnv [namedLead ''U-1'', namedLead ''U-2'', namedLead ''U-3''] False 3
        (pickyStore ThrownUndefined ''U-2'') 0)
   = Some [(1, ImportedWithIssues), (1, Failed), (2, Failed), (3, Failed)]
   \<and> map_option snd
     (processBulkLeadImport demoEnv [namedLead ''U-1'', namedLead ''U-2'', namedLead ''U-3''] False 3
        (pickyStore ThrownUndefined ''U-2'') 0)
   = Some 1"
  by (simp add: split3 run_defs step_defs log_defs demo_defs string_eval genUid_def showNat.simps
        Let_def upt_rec)

section \<open>Dry run and real run\<close>

lemma not_isl_fst:
  "\<not> isl (fst p) \<Longrightarrow> \<exists>v s. p = (Inr v, s)"
  by (cases p; cases "fst p") auto

lemma persistLead_succeeds:
  assumes lead: "\<And>l s. \<not> isl (fst (createLead storage l s))"
    and remark: "\<And>x s. \<not> isl (fst (createRemark storage x s))"
    and history: "\<And>h s. \<not> isl (fst (createStageHistory storage h s))"
  shows "fst (persistLead storage r normalized b s) = None"
proof -
  obtain inp where c1: "persistLead storage r normalized b s =
     (case createLead storage inp s of
        (Inl ex, s1) \<Rightarrow> (Some ex, s1)
      | (Inr newLeadId, s1) \<Rightarrow>
          (case (case n_remarks normalized of
                   Some t \<Rightarrow>
                     if t \<noteq> [] \<and> trim t \<noteq> [] then
                       createRemark storage
                         \<lparr> rm_leadId = newLeadId,
                           rm_userId = orId (b_counselorId b) (ctx_managerId r),
                           rm_content = ''Bulk Import: '' @ trim t,
                           rm_isVisible = True \<rparr> s1
                     else (Inr (), s1)
                 | None \<Rightarrow> (Inr (), s1)) of
             (Inl ex, s2) \<Rightarrow> (Some ex, s2)
           | (Inr u, s2) \<Rightarrow>
               (case (if b_currentStage b \<noteq> [] \<and> b_currentStage b \<noteq> ''Yet to Assign''
                      then createStageHistory storage
                             \<lparr> h_leadId = newLeadId, h_fromStage = None,
                               h_toStage = b_currentStage b,
                               h_userId = orId (b_counselorId b) (ctx_managerId r),
                               h_reason = ''Bulk import - '' @
                                 (if truthyId (b_counselorId b)
                                  then ''Assigned to counselor'' else ''Unassigned''),
                               h_createdAt = n_leadCreatedDate normalized \<rparr> s2
                      else (Inr (), s2)) of
                  (Inl ex, s3) \<Rightarrow> (Some ex, s3)
                | (Inr u, s3) \<Rightarrow> (None, s3))))"
    unfolding persistLead_def by blast
  obtain i s1 where l: "createLead storage inp s = (Inr i, s1)"
    using not_isl_fst [OF lead] by blast
  define rem where "rem = (case n_remarks normalized of
                   Some t \<Rightarrow>
                     if t \<noteq> [] \<and> trim t \<noteq> [] then
                       createRemark storage
                         \<lparr> rm_leadId = i,
                           rm_userId = orId (b_counselorId b) (ctx_managerId r),
                           rm_content = ''Bulk Import: '' @ trim t,
                           rm_isVisible = True \<rparr> s1
                     else (Inr (), s1)
                 | None \<Rightarrow> (Inr (), s1))"
  have "\<not> isl (fst rem)"
    using remark by (simp add: rem_def split: option.splits)
  then obtain u s2 where rm: "rem = (Inr u, s2)"
    using not_isl_fst by blast
  define hist where "hist = (if b_currentStage b \<noteq> [] \<and> b_currentStage b \<noteq> ''Yet to Assign''
                      then createStageHistory storage
                             \<lparr> h_leadId = i, h_fromStage = None,
                               h_toStage = b_currentStage b,
                               h_userId = orId (b_counselorId b) (ctx_managerId r),
                               h_reason = ''Bulk import - '' @
                                 (if truthyId (b_counselorId b)
                                  then ''Assigned to counselor'' else ''Unassigned''),
                               h_createdAt = n_leadCreatedDate normalized \<rparr> s2
                      else (Inr (), s2))"
  have "\<not> isl (fst hist)"
    using history by (simp add: hist_def)
  then obtain u' s3 where h: "hist = (Inr u', s3)"
    using not_isl_fst by blast
  show ?thesis
    unfolding c1 l
    by (simp add: rem_def [symmetric] rm hist_def [symmetric] h)
qed

lemma rowTry_dry:
  "\<exists>ex l' fi'. rowTry True e storage r rawRow l fi s = (ex, l', fi', s)"
  by (auto simp: rowTry_def Let_def split: prod.splits sum.splits)

lemma rowTry_modes:
  assumes lead: "\<And>l s. \<not> isl (fst (createLead storage l s))"
    and remark: "\<And>x s. \<not> isl (fst (createRemark storage x s))"
    and history: "\<And>h s. \<not> isl (fst (createStageHistory storage h s))"
    and dry: "rowTry True e storage r rawRow l fi s0 = (ex, l', fi', s0')"
  shows "\<exists>s'. rowTry False e storage r rawRow l fi s = (ex, l', fi', s')"
proof (cases "normalizeAndValidateLead e rawRow l fi")
  case (fields x log1 fi1)
  show ?thesis
  proof (cases x)
    case (Inl err)
    with fields dry show ?thesis by (simp add: rowTry_def)
  next
    case (Inr normalized)
    define b where "b = applyBusinessLogic normalized (ctx_counselors r) (ctx_defaultCounselor r) (ctx_managerId r)"
    obtain s1 where p: "persistLead storage r normalized b s = (None, s1)"
      using persistLead_succeeds [OF lead remark history, of r normalized b s]
      by (metis prod.collapse)
    from dry fields Inr p show ?thesis
      by (simp add: rowTry_def Let_def b_def [symmetric])
  qed
qed

lemma processRow_modes:
  assumes lead: "\<And>l s. \<not> isl (fst (createLead storage l s))"
    and remark: "\<And>x s. \<not> isl (fst (createRemark storage x s))"
    and history: "\<And>h s. \<not> isl (fst (createStageHistory storage h s))"
    and dry: "processRow True e storage r c i rawRow st = (esc, st')"
  shows "st_storage st' = st_storage st
     \<and> (\<exists>s'. processRow False e storage r c i rawRow (st\<lparr>st_storage := s\<rparr>)
              = (esc, st'\<lparr>st_storage := s'\<rparr>))"
proof -
  obtain ex l' fi' where t: "rowTry True e storage r rawRow (newLog (c + of_nat i + 1) rawRow)
      (st_fieldIssues st) (st_storage st) = (ex, l', fi', st_storage st)"
    using rowTry_dry [of e storage r rawRow "newLog (c + of_nat i + 1) rawRow" "st_fieldIssues st"
            "st_storage st"] by blast
  from rowTry_modes [OF lead remark history t, of s] obtain s' where
    f: "rowTry False e storage r rawRow (newLog (c + of_nat i + 1) rawRow)
      (st_fieldIssues st) s = (ex, l', fi', s')" by blast
  have a: "st_storage st' = st_storage st"
    using dry by (auto simp: processRow_def t Let_def split: option.splits sum.splits if_splits)
  have b: "processRow False e storage r c i rawRow (st\<lparr>st_storage := s\<rparr>)
              = (esc, st'\<lparr>st_storage := s'\<rparr>)"
    using dry by (auto simp: processRow_def t f Let_def split: option.splits sum.splits if_splits)
  from a b show ?thesis by blast
qed

lemma processRows_modes:
  assumes lead: "\<And>l s. \<not> isl (fst (createLead storage l s))"
    and remark: "\<And>x s. \<not> isl (fst (createRemark storage x s))"
    and history: "\<And>h s. \<not> isl (fst (createStageHistory storage h s))"
  shows "processRows True e storage r c i rows st = (esc, st') \<Longrightarrow>
     st_storage st' = st_storage st
     \<and> (\<exists>s'. processRows False e storage r c i rows (st\<lparr>st_storage := s\<rparr>)
              = (esc, st'\<lparr>st_storage := s'\<rparr>))"
proof (induction rows arbitrary: i st s)
  case Nil
  then show ?case by auto
next
  case (Cons rawRow rest)
  obtain esc1 st1 where p: "processRow True e storage r c i rawRow st = (esc1, st1)"
    by (cases "processRow True e storage r c i rawRow st")
  from processRow_modes [OF lead remark history p, of s] obtain s1 where
    q: "st_storage st1 = st_storage st"
       "processRow False e storage r c i rawRow (st\<lparr>st_storage := s\<rparr>) = (esc1, st1\<lparr>st_storage := s1\<rparr>)"
    by blast
  show ?case
  proof (cases esc1)
    case (Some ex)
    with Cons.prems p q show ?thesis by auto
  next
    case None
    with Cons.prems p have "processRows True e storage r c (Suc i) rest st1 = (esc, st')" by simp
    from Cons.IH [OF this, of s1] q None show ?thesis by auto
  qed
qed

lemma processChunk_modes:
  assumes lead: "\<And>l s. \<not> isl (fst (createLead storage l s))"
    and remark: "\<And>x s. \<not> isl (fst (createRemark storage x s))"
    and history: "\<And>h s. \<not> isl (fst (createStageHistory storage h s))"
  shows "st_storage (processChunk True e storage r cs k chunk st) = st_storage st
     \<and> (\<exists>s'. processChunk False e storage r cs k chunk (st\<lparr>st_storage := s\<rparr>)
              = (processChunk True e storage r cs k chunk st)\<lparr>st_storage := s'\<rparr>)"
proof -
  obtain esc st1 where p: "processRows True e storage r (of_nat k * cs) 0 chunk st = (esc, st1)"
    by (cases "processRows True e storage r (of_nat k * cs) 0 chunk st")
  from processRows_modes [OF lead remark history p, of s] obtain s1 where
    q: "st_storage st1 = st_storage st"
       "processRows False e storage r (of_nat k * cs) 0 chunk (st\<lparr>st_storage := s\<rparr>) = (esc, st1\<lparr>st_storage := s1\<rparr>)"
    by blast
  show ?thesis
    by (cases esc) (auto simp: processChunk_def Let_def p q intro!: exI [of _ s1])
qed

lemma processChunks_modes:
  assumes lead: "\<And>l s. \<not> isl (fst (createLead storage l s))"
    and remark: "\<And>x s. \<not> isl (fst (createRemark storage x s))"
    and history: "\<And>h s. \<not> isl (fst (createStageHistory storage h s))"
  shows "st_storage (processChunks True e storage r cs k chunks st) = st_storage st
     \<and> (\<exists>s'. processChunks False e storage r cs k chunks (st\<lparr>st_storage := s\<rparr>)
              = (processChunks True e storage r cs k chunks st)\<lparr>st_storage := s'\<rparr>)"
proof (induction chunks arbitrary: k st s)
  case Nil
  then show ?case by auto
next
  case (Cons chunk rest)
  from processChunk_modes [OF lead remark history, of e r cs k chunk st s] obtain s1 where
    q: "st_storage (processChunk True e storage r cs k chunk st) = st_storage st"
       "processChunk False e storage r cs k chunk (st\<lparr>st_storage := s\<rparr>)
          = (processChunk True e storage r cs k chunk st)\<lparr>st_storage := s1\<rparr>"
    by blast
  from Cons.IH [of "Suc k" "processChunk True e storage r cs k chunk st" s1] q
  show ?case by auto
qed

text \<open>
  The same rows under two clocks: what the validator does to like entries.
\<close>

lemma stepRel_bind:
  assumes "stepRel Q m1 m2" and "\<And>a b. Q a b \<Longrightarrow> stepRel Q' (f a) (g b)"
  shows "stepRel Q' (bindE m1 f) (bindE m2 g)"
  unfolding stepRel_def
proof (intro allI impI)
  fix l1 fi1 l2 fi2
  assume s: "sameButClock l1 l2"
  obtain x1 k1 g1 where a: "m1 (l1, fi1) = (x1, k1, g1)" by (metis prod_cases3)
  obtain x2 k2 g2 where b: "m2 (l2, fi2) = (x2, k2, g2)" by (metis prod_cases3)
  from assms(1) [unfolded stepRel_def, rule_format, OF s, of fi1 fi2]
  have c: "case ((x1, k1, g1), (x2, k2, g2)) of
           ((Inl x, k1, g1), (Inl y, k2, g2)) \<Rightarrow> x = y \<and> sameButClock k1 k2
         | ((Inr a, k1, g1), (Inr b, k2, g2)) \<Rightarrow> Q a b \<and> sameButClock k1 k2
         | _ \<Rightarrow> False"
    by (simp only: a b)
  show "case (bindE m1 f (l1, fi1), bindE m2 g (l2, fi2)) of
           ((Inl x, k1, g1), (Inl y, k2, g2)) \<Rightarrow> x = y \<and> sameButClock k1 k2
         | ((Inr a, k1, g1), (Inr b, k2, g2)) \<Rightarrow> Q' a b \<and> sameButClock k1 k2
         | _ \<Rightarrow> False"
  proof (cases x1)
    case (Inl ex)
    with c show ?thesis by (cases x2) (simp_all add: bindE_def a b)
  next
    case (Inr v)
    with c obtain w where w: "x2 = Inr w" "Q v w" "sameButClock k1 k2" by (cases x2) simp_all
    from assms(2) [OF w(2), unfolded stepRel_def, rule_format, OF w(3), of g1 g2]
    have "case (f v (k1, g1), g w (k2, g2)) of
           ((Inl x, k1, g1), (Inl y, k2, g2)) \<Rightarrow> x = y \<and> sameButClock k1 k2
         | ((Inr a, k1, g1), (Inr b, k2, g2)) \<Rightarrow> Q' a b \<and> sameButClock k1 k2
         | _ \<Rightarrow> False" .
    then show ?thesis by (simp add: bindE_def a b Inr w(1))
  qed
qed

lemma same_push:
  "sameButClock a b \<Longrightarrow> sameButClock (pushFix m a) (pushFix m' b)"
  "sameButClock a b \<Longrightarrow> sameButClock (pushWarning m a) (pushWarning m b)"
  "sameButClock a b \<Longrightarrow> sameButClock (pushError m a) (pushError m b)"
  by (simp_all add: sameButClock_def pushFix_def pushWarning_def pushError_def)

lemma same_push_one:
  "sameButClock a b \<Longrightarrow> fixesApplied a \<noteq> [] \<Longrightarrow> sameButClock a (pushFix m b)"
  "sameButClock a b \<Longrightarrow> fixesApplied b \<noteq> [] \<Longrightarrow> sameButClock (pushFix m a) b"
  by (auto simp add: sameButClock_def pushFix_def)

lemma fixes_push: "fixesApplied (pushFix m a) \<noteq> []"
  by (simp add: pushFix_def)

lemma stepRel_guard: "stepRel (=) (guardE f v) (guardE f v)"
  by (cases "nonBlank f v") (auto simp: stepRel_def guardE_def)

lemma stepRel_return: "Q a b \<Longrightarrow> stepRel Q (returnE a) (returnE b)"
  by (simp add: stepRel_def returnE_def)

lemma stepRel_uid: "stepRel (\<lambda>a b. True) (uidStep e1 raw) (uidStep e2 raw)"
  unfolding uidStep_def
proof (rule stepRel_bind [OF stepRel_guard])
  fix a b :: "string option"
  assume "a = b"
  then show "stepRel (\<lambda>a b. True)
          (case a of None \<Rightarrow> \<lambda>(vlog, fi).
                (Inr (genUid (nowMs e1 (rowNumber vlog))), pushFix ''Generated missing UID'' vlog,
                 addFieldIssue fi ''uid'' ''Missing UID - generated automatically'')
           | Some t \<Rightarrow> returnE t)
          (case b of None \<Rightarrow> \<lambda>(vlog, fi).
                (Inr (genUid (nowMs e2 (rowNumber vlog))), pushFix ''Generated missing UID'' vlog,
                 addFieldIssue fi ''uid'' ''Missing UID - generated automatically'')
           | Some t \<Rightarrow> returnE t)"
    by (cases b) (simp_all add: stepRel_def returnE_def same_push)
qed

lemma stepRel_stage: "stepRel (=) (stageStep raw) (stageStep raw)"
  unfolding stageStep_def
proof (rule stepRel_bind [OF stepRel_guard])
  fix a b :: "string option"
  assume "a = b"
  then show "stepRel (=)
          (case a of None \<Rightarrow> \<lambda>(vlog, fi).
                (Inr ''Yet to Assign'',
                 pushFix ''Set default stage for missing current stage''
                   (pushError ''Missing required current stage'' vlog), fi)
           | Some t \<Rightarrow> returnE t)
          (case b of None \<Rightarrow> \<lambda>(vlog, fi).
                (Inr ''Yet to Assign'',
                 pushFix ''Set default stage for missing current stage''
                   (pushError ''Missing required current stage'' vlog), fi)
           | Some t \<Rightarrow> returnE t)"
    by (cases b) (simp_all add: stepRel_def returnE_def same_push)
qed

lemma parse_same: "dateValid e2 = dateValid e1 \<Longrightarrow> parseLeadDate e2 d = parseLeadDate e1 d"
  by (cases d) (simp_all add: parseLeadDate_def)

lemma stepRel_date:
  assumes "dateValid e2 = dateValid e1"
  shows "stepRel (\<lambda>a b. True) (dateStep e1 raw) (dateStep e2 raw)"
  unfolding stepRel_def dateStep_def parse_same [OF assms] Let_def
  by (cases "parseLeadDate e1 (r_leadCreatedDate raw)") (simp_all add: same_push)

lemma stepRel_name: "stepRel (=) (nameStep raw) (nameStep raw)"
  unfolding nameStep_def
  apply (rule stepRel_bind [OF stepRel_guard])
  subgoal for a b
    apply (cases b)
     apply simp
     apply (rule stepRel_bind [OF stepRel_guard])
    subgoal for c d by (cases d) (simp_all add: stepRel_def returnE_def same_push)
    apply (simp add: stepRel_return)
    done
  done

lemma normalizeIntake_rel:
  "sameButClock l1 l2 \<Longrightarrow>
     sameButClock (fst (snd (normalizeIntake y1 t l1 fi1))) (fst (snd (normalizeIntake y2 t l2 fi2)))"
  by (auto simp: normalizeIntake_def Let_def split_def sameButClock_def pushFix_def
        split: option.splits)

lemma normalizeCountry_rel:
  "sameButClock l1 l2 \<Longrightarrow>
     fst (normalizeCountry t l1 fi1) = fst (normalizeCountry t l2 fi2)
     \<and> sameButClock (fst (snd (normalizeCountry t l1 fi1))) (fst (snd (normalizeCountry t l2 fi2)))"
  by (simp add: normalizeCountry_def Let_def same_push)

lemma normalizePhone_rel:
  "sameButClock l1 l2 \<Longrightarrow>
     fst (normalizePhone t l1 fi1) = fst (normalizePhone t l2 fi2)
     \<and> sameButClock (fst (snd (normalizePhone t l1 fi1))) (fst (snd (normalizePhone t l2 fi2)))"
  by (simp add: normalizePhone_def Let_def split_def same_push)

lemma normalizeEmail_rel:
  "sameButClock l1 l2 \<Longrightarrow>
     fst (normalizeEmail t l1 fi1) = fst (normalizeEmail t l2 fi2)
     \<and> sameButClock (fst (snd (normalizeEmail t l1 fi1))) (fst (snd (normalizeEmail t l2 fi2)))"
  by (simp add: normalizeEmail_def Let_def same_push)

lemma stepRel_intake:
  "stepRel (\<lambda>a b. (a = None) = (b = None)) (intakeStep e1 raw) (intakeStep e2 raw)"
  unfolding intakeStep_def
  apply (rule stepRel_bind [OF stepRel_guard])
  subgoal for a b
    by (cases b) (simp_all add: stepRel_def split_def same_push normalizeIntake_rel)
  done

lemma stepRel_country: "stepRel (=) (countryStep raw) (countryStep raw)"
  unfolding countryStep_def
  apply (rule stepRel_bind [OF stepRel_guard])
  subgoal for a b
    by (cases b) (simp_all add: stepRel_def split_def same_push normalizeCountry_rel)
  done

lemma stepRel_phone: "stepRel (=) (phoneStep raw) (phoneStep raw)"
  unfolding phoneStep_def
  apply (rule stepRel_bind [OF stepRel_guard])
  subgoal for a b
    apply (cases b)
     apply simp
     apply (rule stepRel_bind [OF stepRel_guard])
    subgoal for c d
      by (cases d) (simp_all add: stepRel_def split_def same_push normalizePhone_rel)
    apply (simp add: stepRel_def split_def same_push normalizePhone_rel)
    done
  done

lemma stepRel_email: "stepRel (=) (emailStep raw) (emailStep raw)"
  unfolding emailStep_def
  apply (rule stepRel_bind [OF stepRel_guard])
  subgoal for a b
    by (cases b) (simp_all add: stepRel_def returnE_def split_def same_push normalizeEmail_rel)
  done

lemma normalize_rel:
  assumes dv: "dateValid e2 = dateValid e1" and s: "sameButClock l1 l2"
  shows "case (normalizeAndValidateLead e1 row l1 fi1, normalizeAndValidateLead e2 row l2 fi2) of
           ((Inl x, k1, g1), (Inl y, k2, g2)) \<Rightarrow> x = y \<and> sameButClock k1 k2
         | ((Inr a, k1, g1), (Inr b, k2, g2)) \<Rightarrow> sameLead a b \<and> sameButClock k1 k2
         | _ \<Rightarrow> False"
proof (cases row)
  case NullRow
  with s show ?thesis by (simp add: normalizeAndValidateLead_def)
next
  case (Row raw)
  have "stepRel sameLead (\<lambda>p. normalizeAndValidateLead e1 (Row raw) (fst p) (snd p))
                         (\<lambda>p. normalizeAndValidateLead e2 (Row raw) (fst p) (snd p))"
    apply (simp add: normalizeAndValidateLead_def)
    apply (rule stepRel_bind [OF stepRel_uid])
    apply (rule stepRel_bind [OF stepRel_name])
    apply (rule stepRel_bind [OF stepRel_stage])
    apply (rule stepRel_bind [OF stepRel_date [OF dv]])
    apply (rule stepRel_bind [OF stepRel_intake])
    apply (rule stepRel_bind [OF stepRel_country])
    apply (rule stepRel_bind [OF stepRel_phone])
    apply (rule stepRel_bind [OF stepRel_email])
    apply (rule stepRel_bind [OF stepRel_guard])
    apply (rule stepRel_bind [OF stepRel_guard])
    apply (rule stepRel_bind [OF stepRel_guard])
    apply (rule stepRel_bind [OF stepRel_guard])
    apply (rule stepRel_return)
    apply (simp add: sameLead_def)
    done
  from this [unfolded stepRel_def, rule_format, OF s, of fi1 fi2] Row
  show ?thesis by simp
qed

lemma business_same:
  "sameLead a b \<Longrightarrow> applyBusinessLogic a cs dc m = applyBusinessLogic b cs dc m"
  by (simp add: applyBusinessLogic_def sameLead_def)

lemma rowTry_rel:
  assumes lead: "\<And>l s. \<not> isl (fst (createLead storage l s))"
    and remark: "\<And>x s. \<not> isl (fst (createRemark storage x s))"
    and history: "\<And>h s. \<not> isl (fst (createStageHistory storage h s))"
    and dv: "dateValid e2 = dateValid e1" and s: "sameButClock l1 l2"
  shows "fst (rowTry False e2 storage r row l2 fi2 s2) = fst (rowTry True e1 storage r row l1 fi1 s1)
     \<and> sameButClock (fst (snd (rowTry True e1 storage r row l1 fi1 s1)))
                     (fst (snd (rowTry False e2 storage r row l2 fi2 s2)))"
proof -
  obtain x1 k1 g1 where a: "normalizeAndValidateLead e1 row l1 fi1 = (x1, k1, g1)"
    by (metis prod_cases3)
  obtain x2 k2 g2 where b: "normalizeAndValidateLead e2 row l2 fi2 = (x2, k2, g2)"
    by (metis prod_cases3)
  note n = normalize_rel [OF dv s, of row fi1 fi2, unfolded a b]
  show ?thesis
  proof (cases x1)
    case (Inl ex)
    with n show ?thesis by (cases x2) (simp_all add: rowTry_def a b)
  next
    case (Inr v)
    with n obtain w where w: "x2 = Inr w" "sameLead v w" "sameButClock k1 k2"
      by (cases x2) simp_all
    define bl where "bl = applyBusinessLogic w (ctx_counselors r) (ctx_defaultCounselor r) (ctx_managerId r)"
    have bs: "applyBusinessLogic v (ctx_counselors r) (ctx_defaultCounselor r) (ctx_managerId r) = bl"
      unfolding bl_def using w(2) by (rule business_same)
    obtain s' where p: "persistLead storage r w bl s2 = (None, s')"
      using persistLead_succeeds [OF lead remark history, of r w bl s2]
      by (metis prod.collapse)
    from w(2,3) show ?thesis
      by (simp add: rowTry_def a b Inr w(1) Let_def bs bl_def [symmetric] p sameButClock_def)
  qed
qed

lemma processRow_rel:
  assumes lead: "\<And>l s. \<not> isl (fst (createLead storage l s))"
    and remark: "\<And>x s. \<not> isl (fst (createRemark storage x s))"
    and history: "\<And>h s. \<not> isl (fst (createStageHistory storage h s))"
    and dv: "dateValid e2 = dateValid e1" and s: "sameProgress st1 st2"
  shows "fst (processRow False e2 storage r c i row st2) = fst (processRow True e1 storage r c i row st1)
     \<and> sameProgress (snd (processRow True e1 storage r c i row st1))
                     (snd (processRow False e2 storage r c i row st2))"
proof -
  have n: "sameButClock (newLog (c + of_nat i + 1) row) (newLog (c + of_nat i + 1) row)"
    by (simp add: sameButClock_def newLog_def)
  obtain x1 k1 g1 t1 where a: "rowTry True e1 storage r row (newLog (c + of_nat i + 1) row)
      (st_fieldIssues st1) (st_storage st1) = (x1, k1, g1, t1)" by (metis prod_cases4)
  obtain x2 k2 g2 t2 where b: "rowTry False e2 storage r row (newLog (c + of_nat i + 1) row)
      (st_fieldIssues st2) (st_storage st2) = (x2, k2, g2, t2)" by (metis prod_cases4)
  from rowTry_rel [OF lead remark history dv n, of r row "st_fieldIssues st2" "st_storage st2"
      "st_fieldIssues st1" "st_storage st1"]
  have x: "x2 = x1" and k: "sameButClock k1 k2" by (simp_all add: a b)
  from k have w: "warnings k1 = warnings k2" "(fixesApplied k1 = []) = (fixesApplied k2 = [])"
    by (simp_all add: sameButClock_def)
  have e1: "sameButClock (k1\<lparr>status := ImportedWithIssues\<rparr>) (k2\<lparr>status := ImportedWithIssues\<rparr>)"
    using k by (simp add: sameButClock_def)
  have e2: "\<And>m. sameButClock (k1\<lparr>status := Failed, errors := errors k1 @ [m]\<rparr>)
                               (k2\<lparr>status := Failed, errors := errors k2 @ [m]\<rparr>)"
    using k by (simp add: sameButClock_def)
  show ?thesis
  proof (cases x1)
    case None
    with s x k w e1 show ?thesis
      by (auto simp: processRow_def a b Let_def sameProgress_def intro!: list_all2_appendI)
  next
    case (Some ex)
    with s x e2 show ?thesis
      by (cases "readMessage ex")
         (auto simp: processRow_def a b Let_def sameProgress_def intro!: list_all2_appendI)
  qed
qed

lemma processRows_rel:
  assumes lead: "\<And>l s. \<not> isl (fst (createLead storage l s))"
    and remark: "\<And>x s. \<not> isl (fst (createRemark storage x s))"
    and history: "\<And>h s. \<not> isl (fst (createStageHistory storage h s))"
    and dv: "dateValid e2 = dateValid e1"
  shows "sameProgress st1 st2 \<Longrightarrow>
     fst (processRows False e2 storage r c i rows st2) = fst (processRows True e1 storage r c i rows st1)
     \<and> sameProgress (snd (processRows True e1 storage r c i rows st1))
                     (snd (processRows False e2 storage r c i rows st2))"
proof (induction rows arbitrary: i st1 st2)
  case Nil
  then show ?case by simp
next
  case (Cons row rest)
  obtain x1 u1 where a: "processRow True e1 storage r c i row st1 = (x1, u1)"
    by (cases "processRow True e1 storage r c i row st1")
  obtain x2 u2 where b: "processRow False e2 storage r c i row st2 = (x2, u2)"
    by (cases "processRow False e2 storage r c i row st2")
  from processRow_rel [OF lead remark history dv Cons.prems, of r c i row]
  have x: "x2 = x1" and u: "sameProgress u1 u2" by (simp_all add: a b)
  show ?case
  proof (cases x1)
    case None
    with Cons.IH [OF u, of "Suc i"] x show ?thesis by (simp add: a b)
  next
    case (Some ex)
    with x u show ?thesis by (simp add: a b)
  qed
qed

lemma same_refl_failed: "sameButClock (chunkFailedLog c ex i row) (chunkFailedLog c ex i row)"
  by (simp add: sameButClock_def chunkFailedLog_def)

lemma processChunk_rel:
  assumes lead: "\<And>l s. \<not> isl (fst (createLead storage l s))"
    and remark: "\<And>x s. \<not> isl (fst (createRemark storage x s))"
    and history: "\<And>h s. \<not> isl (fst (createStageHistory storage h s))"
    and dv: "dateValid e2 = dateValid e1" and s: "sameProgress st1 st2"
  shows "sameProgress (processChunk True e1 storage r cs k chunk st1)
                      (processChunk False e2 storage r cs k chunk st2)"
proof -
  obtain x1 u1 where a: "processRows True e1 storage r (of_nat k * cs) 0 chunk st1 = (x1, u1)"
    by (cases "processRows True e1 storage r (of_nat k * cs) 0 chunk st1")
  obtain x2 u2 where b: "processRows False e2 storage r (of_nat k * cs) 0 chunk st2 = (x2, u2)"
    by (cases "processRows False e2 storage r (of_nat k * cs) 0 chunk st2")
  from processRows_rel [OF lead remark history dv s, of r "of_nat k * cs" 0 chunk]
  have x: "x2 = x1" and u: "sameProgress u1 u2" by (simp_all add: a b)
  have f: "\<And>ex. list_all2 sameButClock
      (map (\<lambda>i. chunkFailedLog (of_nat k * cs) ex i (chunk ! i)) [0 ..< length chunk])
      (map (\<lambda>i. chunkFailedLog (of_nat k * cs) ex i (chunk ! i)) [0 ..< length chunk])"
    by (simp add: list_all2_map1 list_all2_map2 list_all2_same same_refl_failed)
  from x u f show ?thesis
    by (cases x1) (auto simp: processChunk_def a b Let_def sameProgress_def intro!: list_all2_appendI)
qed

lemma processChunks_rel:
  assumes lead: "\<And>l s. \<not> isl (fst (createLead storage l s))"
    and remark: "\<And>x s. \<not> isl (fst (createRemark storage x s))"
    and history: "\<And>h s. \<not> isl (fst (createStageHistory storage h s))"
    and dv: "dateValid e2 = dateValid e1"
  shows "sameProgress st1 st2 \<Longrightarrow>
     sameProgress (processChunks True e1 storage r cs k chunks st1)
                  (processChunks False e2 storage r cs k chunks st2)"
proof (induction chunks arbitrary: k st1 st2)
  case Nil
  then show ?case by simp
next
  case (Cons chunk rest)
  from processChunk_rel [OF lead remark history dv Cons.prems, of r cs k chunk]
  show ?case by (simp add: Cons.IH)
qed

lemma dry_run_same_clock:
  assumes lead: "\<And>l s. \<not> isl (fst (createLead storage l s))"
    and remark: "\<And>x s. \<not> isl (fst (createRemark storage x s))"
    and history: "\<And>h s. \<not> isl (fst (createStageHistory storage h s))"
    and lookup: "\<And>s. snd (getAllUsers storage s) = s"
    and dry: "processBulkLeadImport e rawLeads True chunkSize storage s = Some (res, s')"
  shows "s' = s
     \<and> (\<exists>s''. processBulkLeadImport e rawLeads False chunkSize storage s' = Some (res, s''))"
proof -
  obtain r s1 where f: "fetchRoster storage s = (r, s1)" by (cases "fetchRoster storage s")
  have s1: "s1 = s"
    using f lookup [of s] by (auto simp: fetchRoster_def Let_def split: prod.splits sum.splits)
  from dry f obtain chunks where c: "splitChunks rawLeads chunkSize 0 [] = Some chunks"
    by (auto simp: processBulkLeadImport_def split: option.splits)
  let ?st = "processChunks True e storage r chunkSize 0 chunks (initialState s)"
  from dry f c s1 have d: "res = summarize rawLeads chunks ?st" "s' = st_storage ?st"
    by (simp_all add: processBulkLeadImport_def Let_def)
  from processChunks_modes [OF lead remark history, of e r chunkSize 0 chunks "initialState s" s]
  obtain s2 where q: "st_storage ?st = s"
     "processChunks False e storage r chunkSize 0 chunks (initialState s) = ?st\<lparr>st_storage := s2\<rparr>"
    by (auto simp: initialState_def)
  have "s' = s" using d(2) q(1) by simp
  moreover have "processBulkLeadImport e rawLeads False chunkSize storage s = Some (res, s2)"
    using f s1 c q(2) d(1) by (simp add: processBulkLeadImport_def Let_def summarize_def)
  ultimately show ?thesis by blast
qed

lemma dry_run_any_clock:
  assumes lead: "\<And>l s. \<not> isl (fst (createLead storage l s))"
    and remark: "\<And>x s. \<not> isl (fst (createRemark storage x s))"
    and history: "\<And>h s. \<not> isl (fst (createStageHistory storage h s))"
    and lookup: "\<And>s. snd (getAllUsers storage s) = s"
    and parser: "dateValid e' = dateValid e"
    and dry: "processBulkLeadImport e rawLeads True chunkSize storage s = Some (res, s')"
  shows "\<exists>res' s''. processBulkLeadImport e' rawLeads False chunkSize storage s = Some (res', s'')
        \<and> totalRows (batchSummary res') = totalRows (batchSummary res)
        \<and> imported (batchSummary res') = imported (batchSummary res)
        \<and> importedWithIssues (batchSummary res') = importedWithIssues (batchSummary res)
        \<and> failed (batchSummary res') = failed (batchSummary res)
        \<and> chunkStats (batchSummary res') = chunkStats (batchSummary res)
        \<and> list_all2 sameButClock (validationLog res) (validationLog res')"
proof -
  obtain r s1 where f: "fetchRoster storage s = (r, s1)" by (cases "fetchRoster storage s")
  have s1: "s1 = s"
    using f lookup [of s] by (auto simp: fetchRoster_def Let_def split: prod.splits sum.splits)
  from dry f obtain chunks where c: "splitChunks rawLeads chunkSize 0 [] = Some chunks"
    by (auto simp: processBulkLeadImport_def split: option.splits)
  let ?st = "processChunks True e storage r chunkSize 0 chunks (initialState s)"
  let ?st' = "processChunks False e' storage r chunkSize 0 chunks (initialState s)"
  from dry f c s1 have d: "res = summarize rawLeads chunks ?st"
    by (simp add: processBulkLeadImport_def Let_def)
  have i: "sameProgress (initialState s) (initialState s)"
    by (simp add: sameProgress_def initialState_def)
  from processChunks_rel [OF lead remark history parser i, of r chunkSize 0 chunks]
  have p: "sameProgress ?st ?st'" .
  have "processBulkLeadImport e' rawLeads False chunkSize storage s
          = Some (summarize rawLeads chunks ?st', st_storage ?st')"
    using f s1 c by (simp add: processBulkLeadImport_def Let_def)
  with p show ?thesis
    unfolding d by (simp add: summarize_def sameProgress_def)
qed


text \<open>
  C7, as stated, fails: the second run reads the clock later than the first, and what
  the validator takes from the clock goes into the log. For one row without a uid and
  a clock that has moved on by one millisecond, the dry run logs the uid
  \<open>UID-400000\<close> and the creation time 1762070400000, the run that follows logs
  \<open>UID-400001\<close> and 1762070400001. Neither is an identifier assigned by the store.
\<close>

theorem C7_counterexample:
  "map_option (map normalizedData \<circ> validationLog \<circ> fst)
     (processBulkLeadImport demoEnv [Row emptyLead] True 1 demoStore 0)
   = Some [Data \<lparr> n_uid = ''UID-400000'', n_name = ''Unknown Student'',
                   n_currentStage = ''Yet to Assign'', n_leadCreatedDate = DateNow 1762070400000,
                   n_intake = None, n_country = JAbsent, n_phone = None, n_email = None,
                   n_source = None, n_passportStatus = None, n_remarks = None,
                   n_counsellors = None \<rparr> None ''Yet to Assign'']
   \<and> map_option (map normalizedData \<circ> validationLog \<circ> fst)
     (processBulkLeadImport laterEnv [Row emptyLead] False 1 demoStore 0)
   = Some [Data \<lparr> n_uid = ''UID-400001'', n_name = ''Unknown Student'',
                   n_currentStage = ''Yet to Assign'', n_leadCreatedDate = DateNow 1762070400001,
                   n_intake = None, n_country = JAbsent, n_phone = None, n_email = None,
                   n_source = None, n_passportStatus = None, n_remarks = None,
                   n_counsellors = None \<rparr> None ''Yet to Assign'']"
  by (simp add: split1 laterEnv_def run_defs step_defs log_defs demo_defs string_eval genUid_def
        showNat.simps Let_def)


text \<open>
  C7, amended. Take a store whose three create operations always succeed and whose
  roster lookup leaves the store as it is, a clock for the dry run and a clock for the
  run that follows, and the same date parser for both. If the dry run returns a result,
  it leaves the store as it found it, and the run with \<open>dryRun = False\<close> that follows
  returns a result with the same counts (rows, imported, imported with issues, failed,
  chunk statistics) and with a log that is like the first entry by entry: the same row
  number, status, warnings, errors and original data, fixes in both or in neither, and
  the same normalized data but for the uid, the creation date and the text of the
  intake. When the
  two clocks read the same, the result is the very same, log, counts and tally. The log
  holds no identifier assigned by the store.
\<close>

theorem C7_dry_run_equivalence:
  assumes lead: "\<And>l s. \<not> isl (fst (createLead storage l s))"
    and remark: "\<And>x s. \<not> isl (fst (createRemark storage x s))"
    and history: "\<And>h s. \<not> isl (fst (createStageHistory storage h s))"
    and lookup: "\<And>s. snd (getAllUsers storage s) = s"
    and parser: "dateValid e' = dateValid e"
    and dry: "processBulkLeadImport e rawLeads True chunkSize storage s = Some (res, s')"
  shows "s' = s
     \<and> (\<exists>res' s''. processBulkLeadImport e' rawLeads False chunkSize storage s' = Some (res', s'')
        \<and> totalRows (batchSummary res') = totalRows (batchSummary res)
        \<and> imported (batchSummary res') = imported (batchSummary res)
        \<and> importedWithIssues (batchSummary res') = importedWithIssues (batchSummary res)
        \<and> failed (batchSummary res') = failed (batchSummary res)
        \<and> chunkStats (batchSummary res') = chunkStats (batchSummary res)
        \<and> list_all2 sameButClock (validationLog res) (validationLog res')
        \<and> (nowMs e' = nowMs e \<and> fullYear e' = fullYear e \<longrightarrow> res' = res))"
proof -
  note same = dry_run_same_clock [OF lead remark history lookup dry]
  then have s: "s' = s" by simp
  from dry_run_any_clock [OF lead remark history lookup parser dry]
  obtain res' s'' where r:
    "processBulkLeadImport e' rawLeads False chunkSize storage s = Some (res', s'')"
    "totalRows (batchSummary res') = totalRows (batchSummary res)"
    "imported (batchSummary res') = imported (batchSummary res)"
    "importedWithIssues (batchSummary res') = importedWithIssues (batchSummary res)"
    "failed (batchSummary res') = failed (batchSummary res)"
    "chunkStats (batchSummary res') = chunkStats (batchSummary res)"
    "list_all2 sameButClock (validationLog res) (validationLog res')"
    by blast
  have "res' = res" if "nowMs e' = nowMs e \<and> fullYear e' = fullYear e"
  proof -
    from that parser have "e' = e" by (cases e, cases e') simp
    with same r(1) s show ?thesis by auto
  qed
  with s r show ?thesis by blast
qed


theorem C7_witness:
  "\<exists>res res' s'' s3.
     processBulkLeadImport demoEnv [namedLead ''U-1'', NullRow, Row emptyLead] True 2 demoStore 0
       = Some (res, 0)
     \<and> processBulkLeadImport laterEnv [namedLead ''U-1'', NullRow, Row emptyLead] False 2 demoStore 0
       = Some (res', s'')
     \<and> imported (batchSummary res') = imported (batchSummary res)
     \<and> importedWithIssues (batchSummary res') = importedWithIssues (batchSummary res)
     \<and> failed (batchSummary res') = failed (batchSummary res)
     \<and> chunkStats (batchSummary res') = chunkStats (batchSummary res)
     \<and> list_all2 sameButClock (validationLog res) (validationLog res')
     \<and> processBulkLeadImport demoEnv [namedLead ''U-1'', NullRow, Row emptyLead] False 2 demoStore 0
       = Some (res, s3)"
proof -
  obtain res s' where dry:
    "processBulkLeadImport demoEnv [namedLead ''U-1'', NullRow, Row emptyLead] True 2 demoStore 0
       = Some (res, s')"
    using run_returns [of 2 demoEnv "[namedLead ''U-1'', NullRow, Row emptyLead]" True demoStore 0]
    by auto
  have a: "s' = 0 \<and> (\<exists>res' s''. processBulkLeadImport laterEnv
                       [namedLead ''U-1'', NullRow, Row emptyLead] False 2 demoStore s' = Some (res', s'')
        \<and> totalRows (batchSummary res') = totalRows (batchSummary res)
        \<and> imported (batchSummary res') = imported (batchSummary res)
        \<and> importedWithIssues (batchSummary res') = importedWithIssues (batchSummary res)
        \<and> failed (batchSummary res') = failed (batchSummary res)
        \<and> chunkStats (batchSummary res') = chunkStats (batchSummary res)
        \<and> list_all2 sameButClock (validationLog res) (validationLog res')
        \<and> (nowMs laterEnv = nowMs demoEnv \<and> fullYear laterEnv = fullYear demoEnv \<longrightarrow> res' = res))"
    by (rule C7_dry_run_equivalence [OF _ _ _ _ _ dry]) (simp_all add: demoStore_def laterEnv_def)
  have b: "s' = 0 \<and> (\<exists>res' s''. processBulkLeadImport demoEnv
                       [namedLead ''U-1'', NullRow, Row emptyLead] False 2 demoStore s' = Some (res', s'')
        \<and> totalRows (batchSummary res') = totalRows (batchSummary res)
        \<and> imported (batchSummary res') = imported (batchSummary res)
        \<and> importedWithIssues (batchSummary res') = importedWithIssues (batchSummary res)
        \<and> failed (batchSummary res') = failed (batchSummary res)
        \<and> chunkStats (batchSummary res') = chunkStats (batchSummary res)
        \<and> list_all2 sameButClock (validationLog res) (validationLog res')
        \<and> (nowMs demoEnv = nowMs demoEnv \<and> fullYear demoEnv = fullYear demoEnv \<longrightarrow> res' = res))"
    by (rule C7_dry_run_equivalence [OF _ _ _ _ _ dry]) (simp_all add: demoStore_def)
  from a b dry show ?thesis by auto
qed

section \<open>Where the counters add up\<close>

text \<open>
  What holds of the counters on every run with a chunk size of at least 1: the number of
  chunks is the ceiling of rows by chunk size, every chunk is counted as successful or
  failed, and the three row counters together are never below the number of rows. They
  are equal to it when no chunk failed, which is so in every dry run and in every run
  against a store that rejects with objects only.
\<close>

lemma slice_floor:
  assumes "0 \<le> i" "i < of_nat (length xs)" "i \<le> j"
  shows "slice xs i j @ drop (nat \<lfloor>j\<rfloor>) xs = drop (nat \<lfloor>i\<rfloor>) xs"
proof -
  have fi: "0 \<le> \<lfloor>i\<rfloor>" using assms(1) by simp
  have fl: "\<lfloor>i\<rfloor> < int (length xs)" using assms(2) by (simp add: floor_less_iff)
  have fj: "\<lfloor>i\<rfloor> \<le> \<lfloor>j\<rfloor>" using assms(3) by (rule floor_mono)
  have j0: "\<not> j < 0" using assms(1,3) by simp
  define a where "a = nat \<lfloor>i\<rfloor>"
  define b where "b = nat \<lfloor>j\<rfloor>"
  have ab: "a \<le> b" "a < length xs" using fi fl fj unfolding a_def b_def by linarith+
  have s: "slice xs i j = take (min b (length xs) - a) (drop a xs)"
    using assms(1) j0 fi fl fj
    by (auto simp add: slice_def toInteger_def Let_def a_def b_def min_def nat_diff_distrib nat_le_iff)
  show ?thesis
  proof (cases "b \<le> length xs")
    case True
    then have m: "min b (length xs) - a = b - a" by simp
    have "drop (b - a) (drop a xs) = drop b xs" using ab(1) by (simp del: drop_drop add: drop_drop [of "b - a" a xs])
    then have "take (b - a) (drop a xs) @ drop b xs = drop a xs"
      using append_take_drop_id [of "b - a" "drop a xs"] by (simp only:)
    then show ?thesis unfolding s a_def [symmetric] b_def [symmetric] m .
  next
    case False
    then have "min b (length xs) - a = length xs - a" "drop b xs = []" by simp_all
    then show ?thesis unfolding s a_def [symmetric] b_def [symmetric] by simp
  qed
qed

lemma splitChunks_spec:
  assumes "1 \<le> cs"
  shows "0 \<le> i \<Longrightarrow> splitChunks xs cs i acc = Some chunks \<Longrightarrow>
     concat chunks = concat acc @ drop (nat \<lfloor>i\<rfloor>) xs
     \<and> length chunks = length acc + nat \<lceil>(of_nat (length xs) - i) / cs\<rceil>"
proof (induction "nat \<lceil>of_nat (length xs) - i\<rceil>" arbitrary: i acc rule: less_induct)
  case less
  have cs0: "0 < cs" using assms by simp
  show ?case
  proof (cases "i < of_nat (length xs)")
    case True
    define x where "x = (of_nat (length xs) - i) / cs"
    have m: "nat \<lceil>of_nat (length xs) - (i + cs)\<rceil> < nat \<lceil>of_nat (length xs) - i\<rceil>"
    proof -
      have "of_nat (length xs) - (i + cs) \<le> (of_nat (length xs) - i) - 1" using assms by simp
      then have "\<lceil>of_nat (length xs) - (i + cs)\<rceil> \<le> \<lceil>(of_nat (length xs) - i) - 1\<rceil>"
        by (rule ceiling_mono)
      moreover have "0 < \<lceil>of_nat (length xs) - i\<rceil>" using True by simp
      ultimately show ?thesis by simp
    qed
    from less.prems(2) True
    have rec: "splitChunks xs cs (i + cs) (acc @ [slice xs i (i + cs)]) = Some chunks"
      by (subst (asm) splitChunks.simps) simp
    have i2: "0 \<le> i + cs" using less.prems(1) assms by simp
    from less.hyps [OF m i2 rec]
    have a: "concat chunks = concat (acc @ [slice xs i (i + cs)]) @ drop (nat \<lfloor>i + cs\<rfloor>) xs"
      and b: "length chunks = length (acc @ [slice xs i (i + cs)])
                + nat \<lceil>(of_nat (length xs) - (i + cs)) / cs\<rceil>" by simp_all
    have "slice xs i (i + cs) @ drop (nat \<lfloor>i + cs\<rfloor>) xs = drop (nat \<lfloor>i\<rfloor>) xs"
      using less.prems(1) True assms by (intro slice_floor) simp_all
    with a have c1: "concat chunks = concat acc @ drop (nat \<lfloor>i\<rfloor>) xs" by simp
    have xp: "0 < x" using True cs0 by (simp add: x_def)
    have "(of_nat (length xs) - (i + cs)) / cs = x - 1"
      using cs0 by (simp add: x_def field_simps)
    then have "\<lceil>(of_nat (length xs) - (i + cs)) / cs\<rceil> = \<lceil>x\<rceil> - 1" by simp
    moreover have "0 < \<lceil>x\<rceil>" using xp by simp
    ultimately have "nat \<lceil>x\<rceil> = Suc (nat \<lceil>(of_nat (length xs) - (i + cs)) / cs\<rceil>)"
      by linarith
    with b have "length chunks = length acc + nat \<lceil>x\<rceil>" by simp
    with c1 show ?thesis by (simp add: x_def)
  next
    case False
    with less.prems(2) have "chunks = acc" by (subst (asm) splitChunks.simps) simp
    moreover have "int (length xs) \<le> \<lfloor>i\<rfloor>" using False by (simp add: le_floor_iff)
    then have "drop (nat \<lfloor>i\<rfloor>) xs = []" by simp
    moreover have "(of_nat (length xs) - i) / cs \<le> 0"
      using False cs0 by (simp add: divide_le_0_iff)
    then have "nat \<lceil>(of_nat (length xs) - i) / cs\<rceil> = 0" by (simp add: ceiling_le_iff)
    ultimately show ?thesis by simp
  qed
qed


lemma processRow_counts:
  "processRow dryRun e storage r c i rawRow st = (esc, st') \<Longrightarrow>
     st_successfulChunks st' = st_successfulChunks st \<and> st_failedChunks st' = st_failedChunks st
     \<and> (esc = None \<longrightarrow> countedRows st' = countedRows st + 1)
     \<and> (esc \<noteq> None \<longrightarrow> countedRows st' = countedRows st)"
  by (auto simp: processRow_def countedRows_def Let_def split: prod.splits option.splits sum.splits if_splits)

lemma processRows_counts:
  "processRows dryRun e storage r c i rows st = (esc, st') \<Longrightarrow>
     st_successfulChunks st' = st_successfulChunks st \<and> st_failedChunks st' = st_failedChunks st
     \<and> (esc = None \<longrightarrow> countedRows st' = countedRows st + length rows)
     \<and> countedRows st \<le> countedRows st'"
proof (induction rows arbitrary: i st)
  case Nil
  then show ?case by auto
next
  case (Cons rawRow rest)
  obtain esc1 st1 where p: "processRow dryRun e storage r c i rawRow st = (esc1, st1)"
    by (cases "processRow dryRun e storage r c i rawRow st")
  note q = processRow_counts [OF p]
  show ?case
  proof (cases esc1)
    case None
    with Cons.prems p have "processRows dryRun e storage r c (Suc i) rest st1 = (esc, st')" by simp
    from Cons.IH [OF this] q None show ?thesis by auto
  next
    case (Some ex)
    with Cons.prems p q show ?thesis by auto
  qed
qed

lemma processChunk_counts:
  "st_successfulChunks (processChunk dryRun e storage r cs k chunk st)
      + st_failedChunks (processChunk dryRun e storage r cs k chunk st)
     = st_successfulChunks st + st_failedChunks st + 1
   \<and> st_failedChunks st \<le> st_failedChunks (processChunk dryRun e storage r cs k chunk st)
   \<and> countedRows st + length chunk \<le> countedRows (processChunk dryRun e storage r cs k chunk st)
   \<and> (st_failedChunks (processChunk dryRun e storage r cs k chunk st) = st_failedChunks st
        \<longrightarrow> countedRows (processChunk dryRun e storage r cs k chunk st) = countedRows st + length chunk)"
proof -
  obtain esc st1 where p: "processRows dryRun e storage r (of_nat k * cs) 0 chunk st = (esc, st1)"
    by (cases "processRows dryRun e storage r (of_nat k * cs) 0 chunk st")
  note q = processRows_counts [OF p]
  show ?thesis
  proof (cases esc)
    case None
    with q show ?thesis by (simp add: processChunk_def Let_def p countedRows_def)
  next
    case (Some ex)
    with q show ?thesis by (simp add: processChunk_def Let_def p countedRows_def)
  qed
qed

lemma processChunks_counts:
  "st_successfulChunks (processChunks dryRun e storage r cs k chunks st)
      + st_failedChunks (processChunks dryRun e storage r cs k chunks st)
     = st_successfulChunks st + st_failedChunks st + length chunks
   \<and> st_failedChunks st \<le> st_failedChunks (processChunks dryRun e storage r cs k chunks st)
   \<and> countedRows st + length (concat chunks) \<le> countedRows (processChunks dryRun e storage r cs k chunks st)
   \<and> (st_failedChunks (processChunks dryRun e storage r cs k chunks st) = st_failedChunks st
        \<longrightarrow> countedRows (processChunks dryRun e storage r cs k chunks st) = countedRows st + length (concat chunks))"
proof (induction chunks arbitrary: k st)
  case Nil
  then show ?case by simp
next
  case (Cons chunk rest)
  let ?st1 = "processChunk dryRun e storage r cs k chunk st"
  note a = processChunk_counts [of dryRun e storage r cs k chunk st]
  note b = Cons.IH [of "Suc k" ?st1]
  from a b show ?case by simp
qed


lemma run_counts:
  assumes "1 \<le> chunkSize"
    and "processBulkLeadImport e rawLeads dryRun chunkSize storage s = Some (res, s')"
  shows "totalRows (batchSummary res) = length rawLeads
     \<and> totalChunks (chunkStats (batchSummary res))
          = nat \<lceil>of_nat (length rawLeads) / chunkSize\<rceil>
     \<and> successfulChunks (chunkStats (batchSummary res)) + failedChunks (chunkStats (batchSummary res))
          = totalChunks (chunkStats (batchSummary res))
     \<and> totalRows (batchSummary res)
          \<le> imported (batchSummary res) + importedWithIssues (batchSummary res) + failed (batchSummary res)
     \<and> (failedChunks (chunkStats (batchSummary res)) = 0 \<longrightarrow>
          imported (batchSummary res) + importedWithIssues (batchSummary res) + failed (batchSummary res)
            = totalRows (batchSummary res))"
proof -
  obtain r s1 where f: "fetchRoster storage s = (r, s1)" by (cases "fetchRoster storage s")
  from assms(2) f obtain chunks where c: "splitChunks rawLeads chunkSize 0 [] = Some chunks"
    by (auto simp: processBulkLeadImport_def split: option.splits)
  let ?st = "processChunks dryRun e storage r chunkSize 0 chunks (initialState s1)"
  from assms(2) f c have d: "res = summarize rawLeads chunks ?st"
    by (simp add: processBulkLeadImport_def Let_def)
  from splitChunks_spec [OF assms(1) _ c]
  have sp: "concat chunks = rawLeads"
    "length chunks = nat \<lceil>of_nat (length rawLeads) / chunkSize\<rceil>" by simp_all
  note k = processChunks_counts [of dryRun e storage r chunkSize 0 chunks "initialState s1"]
  have i0: "st_successfulChunks (initialState s1) = 0" "st_failedChunks (initialState s1) = 0"
    "countedRows (initialState s1) = 0"
    by (simp_all add: initialState_def countedRows_def)
  from k i0 sp show ?thesis
    by (simp add: d summarize_def countedRows_def)
qed

lemma guardE_thrown: "guardE f v (l, fi) = (Inl ex, l', fi') \<Longrightarrow> isErrorObj ex"
  by (cases v) (auto simp: guardE_def typeError_def)

lemma uidStep_thrown: "uidStep e raw (l, fi) = (Inl ex, l', fi') \<Longrightarrow> isErrorObj ex"
  by (cases "r_uid raw")
     (auto simp: uidStep_def bindE_def guardE_def returnE_def typeError_def split: if_splits)

lemma nameStep_thrown: "nameStep raw (l, fi) = (Inl ex, l', fi') \<Longrightarrow> isErrorObj ex"
  by (cases "r_studentName raw"; cases "r_name raw")
     (auto simp: nameStep_def bindE_def guardE_def returnE_def typeError_def split: if_splits)

lemma stageStep_thrown: "stageStep raw (l, fi) = (Inl ex, l', fi') \<Longrightarrow> isErrorObj ex"
  by (cases "r_currentStage raw")
     (auto simp: stageStep_def bindE_def guardE_def returnE_def typeError_def split: if_splits)

lemma dateStep_thrown: "dateStep e raw (l, fi) = (Inl ex, l', fi') \<Longrightarrow> isErrorObj ex"
  by (auto simp: dateStep_def Let_def split: if_splits option.splits)

lemma intakeStep_thrown: "intakeStep e raw (l, fi) = (Inl ex, l', fi') \<Longrightarrow> isErrorObj ex"
  by (cases "r_intake raw")
     (auto simp: intakeStep_def bindE_def guardE_def typeError_def split: if_splits prod.splits)

lemma countryStep_thrown: "countryStep raw (l, fi) = (Inl ex, l', fi') \<Longrightarrow> isErrorObj ex"
  by (cases "r_country raw")
     (auto simp: countryStep_def bindE_def guardE_def typeError_def split: if_splits prod.splits)

lemma phoneStep_thrown: "phoneStep raw (l, fi) = (Inl ex, l', fi') \<Longrightarrow> isErrorObj ex"
  by (cases "r_mobileNumber raw"; cases "r_phone raw")
     (auto simp: phoneStep_def bindE_def guardE_def typeError_def split: if_splits prod.splits)

lemma emailStep_thrown: "emailStep raw (l, fi) = (Inl ex, l', fi') \<Longrightarrow> isErrorObj ex"
  by (cases "r_email raw")
     (auto simp: emailStep_def bindE_def guardE_def returnE_def typeError_def split: if_splits prod.splits)

lemmas step_thrown = uidStep_thrown nameStep_thrown stageStep_thrown dateStep_thrown
  intakeStep_thrown countryStep_thrown phoneStep_thrown emailStep_thrown guardE_thrown

lemma bindE_thrown:
  assumes "bindE m f (l, fi) = (Inl ex, l', fi')"
    and "\<And>l fi ex l' fi'. m (l, fi) = (Inl ex, l', fi') \<Longrightarrow> isErrorObj ex"
    and "\<And>a l fi ex l' fi'. f a (l, fi) = (Inl ex, l', fi') \<Longrightarrow> isErrorObj ex"
  shows "isErrorObj ex"
proof (cases "m (l, fi)")
  case (fields r l1 fi1)
  show ?thesis
  proof (cases r)
    case (Inl ex1)
    with fields assms(1) have "ex = ex1" by (simp add: bindE_def)
    with assms(2) fields Inl show ?thesis by simp
  next
    case (Inr a)
    with fields assms(1) have "f a (l1, fi1) = (Inl ex, l', fi')" by (simp add: bindE_def)
    from assms(3) [OF this] show ?thesis .
  qed
qed

lemma returnE_thrown: "returnE v (l, fi) = (Inl ex, l', fi') \<Longrightarrow> isErrorObj ex"
  by (simp add: returnE_def)

lemma normalize_thrown:
  "normalizeAndValidateLead e rawRow l fi = (Inl ex, l', fi') \<Longrightarrow> isErrorObj ex"
  unfolding normalizeAndValidateLead_def
  apply (cases rawRow)
   apply (auto simp: typeError_def)[1]
  apply simp
  apply (erule bindE_thrown, erule step_thrown)+
  apply (erule returnE_thrown)
  done


lemma persistLead_thrown:
  assumes "rejectsWithObjects storage"
    and "persistLead storage r normalized b s = (Some ex, s')"
  shows "isErrorObj ex"
proof -
  from assms(1) have r1: "\<And>l s ex s'. createLead storage l s = (Inl ex, s') \<Longrightarrow> isErrorObj ex"
    and r2: "\<And>x s ex s'. createRemark storage x s = (Inl ex, s') \<Longrightarrow> isErrorObj ex"
    and r3: "\<And>h s ex s'. createStageHistory storage h s = (Inl ex, s') \<Longrightarrow> isErrorObj ex"
    unfolding rejectsWithObjects_def by blast+
  from assms(2) show ?thesis
    unfolding persistLead_def
    by (auto split: prod.splits sum.splits option.splits if_splits dest: r1 r2 r3)
qed

lemma rowTry_thrown:
  assumes "dryRun \<or> rejectsWithObjects storage"
    and "rowTry dryRun e storage r rawRow l fi s = (Some ex, l', fi', s')"
  shows "isErrorObj ex"
proof (cases "normalizeAndValidateLead e rawRow l fi")
  case (fields x log1 fi1)
  show ?thesis
  proof (cases x)
    case (Inl err)
    with fields assms(2) have "ex = err" by (simp add: rowTry_def)
    with normalize_thrown fields Inl show ?thesis by blast
  next
    case (Inr normalized)
    with fields assms show ?thesis
      by (auto simp: rowTry_def Let_def split: if_splits prod.splits dest: persistLead_thrown)
  qed
qed

lemma processRow_no_escape:
  assumes "dryRun \<or> rejectsWithObjects storage"
  shows "fst (processRow dryRun e storage r c i rawRow st) = None"
proof -
  obtain ex l' fi' s' where t: "rowTry dryRun e storage r rawRow (newLog (c + of_nat i + 1) rawRow)
      (st_fieldIssues st) (st_storage st) = (ex, l', fi', s')"
    by (metis prod_cases4)
  show ?thesis
  proof (cases ex)
    case None
    with t show ?thesis by (simp add: processRow_def Let_def)
  next
    case (Some x)
    with rowTry_thrown [OF assms] t have "isErrorObj x" by blast
    then obtain n m where "x = ErrorObj n m" by (cases x) auto
    with t Some show ?thesis by (simp add: processRow_def Let_def readMessage_def)
  qed
qed

lemma processRows_no_escape:
  assumes "dryRun \<or> rejectsWithObjects storage"
  shows "fst (processRows dryRun e storage r c i rows st) = None"
proof (induction rows arbitrary: i st)
  case Nil
  then show ?case by simp
next
  case (Cons rawRow rest)
  from processRow_no_escape [OF assms, of e r c i rawRow st]
  obtain st1 where "processRow dryRun e storage r c i rawRow st = (None, st1)"
    by (metis prod.collapse)
  with Cons.IH show ?case by simp
qed

lemma processChunk_no_failure:
  assumes "dryRun \<or> rejectsWithObjects storage"
  shows "st_failedChunks (processChunk dryRun e storage r cs k chunk st) = st_failedChunks st"
proof -
  from processRows_no_escape [OF assms, of e r "of_nat k * cs" 0 chunk st]
  obtain st1 where p: "processRows dryRun e storage r (of_nat k * cs) 0 chunk st = (None, st1)"
    by (metis prod.collapse)
  from processRows_counts [OF p] show ?thesis
    by (simp add: processChunk_def Let_def p)
qed

lemma processChunks_no_failure:
  assumes "dryRun \<or> rejectsWithObjects storage"
  shows "st_failedChunks (processChunks dryRun e storage r cs k chunks st) = st_failedChunks st"
  by (induction chunks arbitrary: k st) (simp_all add: processChunk_no_failure [OF assms])

lemma run_invariant:
  assumes "1 \<le> chunkSize" and "dryRun \<or> rejectsWithObjects storage"
    and "processBulkLeadImport e rawLeads dryRun chunkSize storage s = Some (res, s')"
  shows "failedChunks (chunkStats (batchSummary res)) = 0
     \<and> imported (batchSummary res) + importedWithIssues (batchSummary res) + failed (batchSummary res)
          = totalRows (batchSummary res)"
proof -
  obtain r s1 where f: "fetchRoster storage s = (r, s1)" by (cases "fetchRoster storage s")
  from assms(3) f obtain chunks where c: "splitChunks rawLeads chunkSize 0 [] = Some chunks"
    by (auto simp: processBulkLeadImport_def split: option.splits)
  from assms(3) f c have d: "res = summarize rawLeads chunks
        (processChunks dryRun e storage r chunkSize 0 chunks (initialState s1))"
    by (simp add: processBulkLeadImport_def Let_def)
  have "failedChunks (chunkStats (batchSummary res)) = 0"
    unfolding d using processChunks_no_failure [OF assms(2), of e r chunkSize 0 chunks "initialState s1"]
    by (simp add: summarize_def initialState_def)
  with run_counts [OF assms(1,3)] show ?thesis by simp
qed


text \<open>
  On every run, each entry of the log is Failed or carries the status that its warnings
  and fixes call for.
\<close>

lemma processRow_entries:
  assumes "\<forall>l \<in> set (st_validationLog st). status l = Failed
      \<or> status l = (if warnings l \<noteq> [] \<or> fixesApplied l \<noteq> [] then ImportedWithIssues else Imported)"
  shows "\<forall>l \<in> set (st_validationLog (snd (processRow dryRun e storage r c i rawRow st))).
      status l = Failed
      \<or> status l = (if warnings l \<noteq> [] \<or> fixesApplied l \<noteq> [] then ImportedWithIssues else Imported)"
proof -
  obtain ex l1 fi1 s1 where t: "rowTry dryRun e storage r rawRow (newLog (c + of_nat i + 1) rawRow)
      (st_fieldIssues st) (st_storage st) = (ex, l1, fi1, s1)"
    by (metis prod_cases4)
  have st0: "status l1 = Imported"
    using rowTry_status [OF t] by (simp add: newLog_def)
  show ?thesis
  proof (cases ex)
    case None
    with assms st0 show ?thesis by (auto simp: processRow_def t Let_def)
  next
    case (Some x)
    with assms show ?thesis
      by (cases "readMessage x") (auto simp: processRow_def t Let_def)
  qed
qed

lemma processRows_entries:
  "\<forall>l \<in> set (st_validationLog st). status l = Failed
      \<or> status l = (if warnings l \<noteq> [] \<or> fixesApplied l \<noteq> [] then ImportedWithIssues else Imported)
   \<Longrightarrow> \<forall>l \<in> set (st_validationLog (snd (processRows dryRun e storage r c i rows st))).
      status l = Failed
      \<or> status l = (if warnings l \<noteq> [] \<or> fixesApplied l \<noteq> [] then ImportedWithIssues else Imported)"
proof (induction rows arbitrary: i st)
  case Nil
  then show ?case by simp
next
  case (Cons rawRow rest)
  obtain esc1 st1 where p: "processRow dryRun e storage r c i rawRow st = (esc1, st1)"
    by (cases "processRow dryRun e storage r c i rawRow st")
  from processRow_entries [OF Cons.prems, of dryRun e storage r c i rawRow] p
  have q: "\<forall>l \<in> set (st_validationLog st1). status l = Failed
      \<or> status l = (if warnings l \<noteq> [] \<or> fixesApplied l \<noteq> [] then ImportedWithIssues else Imported)"
    by simp
  show ?case
  proof (cases esc1)
    case None
    with Cons.IH [OF q, of "Suc i"] p show ?thesis by simp
  next
    case (Some ex)
    with q p show ?thesis by simp
  qed
qed

lemma processChunk_entries:
  assumes "\<forall>l \<in> set (st_validationLog st). status l = Failed
      \<or> status l = (if warnings l \<noteq> [] \<or> fixesApplied l \<noteq> [] then ImportedWithIssues else Imported)"
  shows "\<forall>l \<in> set (st_validationLog (processChunk dryRun e storage r cs k chunk st)).
      status l = Failed
      \<or> status l = (if warnings l \<noteq> [] \<or> fixesApplied l \<noteq> [] then ImportedWithIssues else Imported)"
proof -
  obtain esc st1 where p: "processRows dryRun e storage r (of_nat k * cs) 0 chunk st = (esc, st1)"
    by (cases "processRows dryRun e storage r (of_nat k * cs) 0 chunk st")
  from processRows_entries [OF assms, of dryRun e storage r "of_nat k * cs" 0 chunk] p
  have q: "\<forall>l \<in> set (st_validationLog st1). status l = Failed
      \<or> status l = (if warnings l \<noteq> [] \<or> fixesApplied l \<noteq> [] then ImportedWithIssues else Imported)"
    by simp
  show ?thesis
  proof (cases esc)
    case None
    with q show ?thesis by (simp add: processChunk_def Let_def p)
  next
    case (Some ex)
    with q show ?thesis by (auto simp: processChunk_def Let_def p chunkFailedLog_def)
  qed
qed

lemma processChunks_entries:
  "\<forall>l \<in> set (st_validationLog st). status l = Failed
      \<or> status l = (if warnings l \<noteq> [] \<or> fixesApplied l \<noteq> [] then ImportedWithIssues else Imported)
   \<Longrightarrow> \<forall>l \<in> set (st_validationLog (processChunks dryRun e storage r cs k chunks st)).
      status l = Failed
      \<or> status l = (if warnings l \<noteq> [] \<or> fixesApplied l \<noteq> [] then ImportedWithIssues else Imported)"
proof (induction chunks arbitrary: k st)
  case Nil
  then show ?case by simp
next
  case (Cons chunk rest)
  from Cons.IH [OF processChunk_entries [OF Cons.prems], of "Suc k" dryRun e storage r cs k chunk]
  show ?case by simp
qed

lemma run_entries:
  assumes "processBulkLeadImport e rawLeads dryRun chunkSize storage s = Some (res, s')"
  shows "\<forall>l \<in> set (validationLog res). status l = Failed
      \<or> status l = (if warnings l \<noteq> [] \<or> fixesApplied l \<noteq> [] then ImportedWithIssues else Imported)"
proof -
  obtain r s1 where f: "fetchRoster storage s = (r, s1)" by (cases "fetchRoster storage s")
  from assms f obtain chunks where c: "splitChunks rawLeads chunkSize 0 [] = Some chunks"
    by (auto simp: processBulkLeadImport_def split: option.splits)
  from assms f c have d: "res = summarize rawLeads chunks
        (processChunks dryRun e storage r chunkSize 0 chunks (initialState s1))"
    by (simp add: processBulkLeadImport_def Let_def)
  have "\<forall>l \<in> set (st_validationLog (initialState s1)). status l = Failed
      \<or> status l = (if warnings l \<noteq> [] \<or> fixesApplied l \<noteq> [] then ImportedWithIssues else Imported)"
    by (simp add: initialState_def)
  from processChunks_entries [OF this, of dryRun e storage r chunkSize 0 chunks]
  show ?thesis unfolding d by (simp add: summarize_def)
qed

end
